theory Spec2Isabelle
  imports Main "HOL-Library.AList"
begin

section \<open>Python strings\<close>

text \<open>
  A Python \<open>str\<close> is modelled as a \<open>string\<close>, one \<open>char\<close> per code point, so the model
  covers text whose code points are below 256. The two character classes below are
  Python's, restricted to that range: \<open>str.isspace\<close> (used by \<open>strip()\<close> and by the
  regular expression class \<open>\s\<close>) and the line boundaries of \<open>str.splitlines\<close>.
\<close>

definition isspace :: "char \<Rightarrow> bool" where
  "isspace c = (c \<in> set [CHR 0x09, CHR 0x0A, CHR 0x0B, CHR 0x0C, CHR 0x0D, CHR 0x1C,
                          CHR 0x1D, CHR 0x1E, CHR 0x1F, CHR 0x20, CHR 0x85, CHR 0xA0])"

definition is_linebreak :: "char \<Rightarrow> bool" where
  "is_linebreak c = (c \<in> set [CHR 0x0A, CHR 0x0B, CHR 0x0C, CHR 0x0D, CHR 0x1C,
                               CHR 0x1D, CHR 0x1E, CHR 0x85])"

text \<open>\<open>s.strip()\<close>\<close>

definition strip :: "string \<Rightarrow> string" where
  "strip s = rev (dropWhile isspace (rev (dropWhile isspace s)))"

text \<open>\<open>line.split("#")[0]\<close>, and \<open>line.split("#", 1)[1]\<close> for a line that holds a \<open>#\<close>.\<close>

definition before_hash :: "string \<Rightarrow> string" where
  "before_hash line = takeWhile (\<lambda>c. c \<noteq> CHR ''#'') line"

definition after_hash :: "string \<Rightarrow> string" where
  "after_hash line = tl (dropWhile (\<lambda>c. c \<noteq> CHR ''#'') line)"

text \<open>\<open>fixed.split(",")[-1]\<close>\<close>

definition last_alternative :: "string \<Rightarrow> string" where
  "last_alternative fixed = rev (takeWhile (\<lambda>c. c \<noteq> CHR '','') (rev fixed))"

text \<open>\<open>sep.join(parts)\<close>\<close>

fun join_with :: "string \<Rightarrow> string list \<Rightarrow> string" where
  "join_with sep [] = []"
| "join_with sep [l] = l"
| "join_with sep (l # ls) = l @ sep @ join_with sep ls"

text \<open>
  \<open>content.splitlines()\<close>: the text is cut at every line boundary, \<open>\r\n\<close> counts as
  one boundary, and a boundary at the very end opens no further line. \<open>cur\<close> holds the
  characters of the line being read, newest first; \<open>after_cr\<close> says that the last
  character read was a carriage return.
\<close>

fun splitlines_from :: "bool \<Rightarrow> string \<Rightarrow> string \<Rightarrow> string list" where
  "splitlines_from after_cr cur [] = (if cur = [] then [] else [rev cur])"
| "splitlines_from after_cr cur (c # cs) =
     (if after_cr \<and> c = CHR 0x0A then splitlines_from False cur cs
      else if is_linebreak c then rev cur # splitlines_from (c = CHR 0x0D) [] cs
      else splitlines_from False (c # cur) cs)"

definition splitlines :: "string \<Rightarrow> string list" where
  "splitlines content = splitlines_from False [] content"

text \<open>\<open>s.startswith(p)\<close> that also returns what follows the prefix.\<close>

fun strip_prefix :: "string \<Rightarrow> string \<Rightarrow> string option" where
  "strip_prefix [] s = Some s"
| "strip_prefix (p # ps) [] = None"
| "strip_prefix (p # ps) (c # cs) = (if p = c then strip_prefix ps cs else None)"

section \<open>Findings and update sets\<close>

text \<open>
  A finding is one entry of a Trivy report. The code reads four of its keys, all strings
  in Trivy's schema; \<open>None\<close> stands for a key that is missing or null (\<open>v.get\<close> returns
  \<open>None\<close> for both).
\<close>

record finding =
  PkgName :: "string option"
  FixedVersion :: "string option"
  Severity :: "string option"
  VulnerabilityID :: "string option"

text \<open>Python truthiness of \<open>v.get(key)\<close>: a non-empty string.\<close>

definition truthy :: "string option \<Rightarrow> bool" where
  "truthy x = (case x of None \<Rightarrow> False | Some s \<Rightarrow> s \<noteq> [])"

text \<open>
  The \<open>updates\<close> dictionary keeps its keys in the order of their first insertion, and an
  assignment to a key that is present replaces its value in place: an association list
  with \<open>AList.update\<close>.

  \<open>PythonUpdater.update\<close>, lines 19 to 26.
\<close>

definition python_updates_step ::
  "(string \<times> string) list \<Rightarrow> finding \<Rightarrow> (string \<times> string) list" where
  "python_updates_step updates v =
     (if truthy (PkgName v) \<and> truthy (FixedVersion v) then
        (let pkg = the (PkgName v);
             fixed = the (FixedVersion v);
             fixed = (if CHR '','' \<in> set fixed then strip (last_alternative fixed) else fixed)
         in AList.update pkg fixed updates)
      else updates)"

definition python_updates :: "finding list \<Rightarrow> (string \<times> string) list" where
  "python_updates vulnerabilities = foldl python_updates_step [] vulnerabilities"

text \<open>
  The same loop as \<open>NodeUpdater.update\<close> (lines 78 to 83), \<open>PoetryUpdater.update\<close>
  (137 to 140), \<open>PipenvUpdater.update\<close> (208 to 211) and \<open>MavenUpdater.update\<close>
  (289 to 292) write it: the fixed version is stored as it stands.
\<close>

definition plain_updates_step ::
  "(string \<times> string) list \<Rightarrow> finding \<Rightarrow> (string \<times> string) list" where
  "plain_updates_step updates v =
     (if truthy (PkgName v) \<and> truthy (FixedVersion v) then
        AList.update (the (PkgName v)) (the (FixedVersion v)) updates
      else updates)"

definition plain_updates :: "finding list \<Rightarrow> (string \<times> string) list" where
  "plain_updates vulnerabilities = foldl plain_updates_step [] vulnerabilities"

section \<open>Exceptions and the repository's files\<close>

text \<open>
  An exception is a class and the text of \<open>str(e)\<close>. \<open>OutsideModel\<close> is not a Python
  exception: it marks the inputs whose behaviour this model does not determine (a
  package name or a version that the \<open>re\<close> module would read as pattern syntax).
\<close>

datatype exc_class =
    UnicodeDecodeError | NameError | TypeError | KeyError | IndexError | GitError | OtherError
  | OutsideModel

datatype pyexc = Exc exc_class string

definition exc_str :: "pyexc \<Rightarrow> string" where
  "exc_str e = (case e of Exc _ m \<Rightarrow> m)"

text \<open>
  A file of the working tree is known by how its bytes decode: as UTF-8, as UTF-16 only,
  or as neither. \<open>read_text()\<close> without an encoding and \<open>write_text\<close> use the locale's
  encoding, taken to be UTF-8. The working tree maps the names in the repository root to
  files.
\<close>

datatype pyfile = Utf8 string | Utf16 string | Undecodable

type_synonym fs = "string \<Rightarrow> pyfile option"

text \<open>
  \<open>Path.read_text\<close> opens the file in text mode with universal newlines: every
  \<open>\r\n\<close> and every other \<open>\r\<close> of the decoded text is read as \<open>\n\<close>. \<open>after_cr\<close>
  says that the last character read was a carriage return. \<open>Path.write_text\<close> writes
  \<open>\n\<close> as the line separator of the platform, taken to be \<open>\n\<close>, so it stores the
  text as it stands.
\<close>

fun universal_newlines_from :: "bool \<Rightarrow> string \<Rightarrow> string" where
  "universal_newlines_from after_cr [] = []"
| "universal_newlines_from after_cr (c # cs) =
     (if after_cr \<and> c = CHR 0x0A then universal_newlines_from False cs
      else if c = CHR 0x0D then CHR 0x0A # universal_newlines_from True cs
      else c # universal_newlines_from False cs)"

definition universal_newlines :: "string \<Rightarrow> string" where
  "universal_newlines s = universal_newlines_from False s"

definition read_text :: "pyfile \<Rightarrow> pyexc + string" where
  "read_text f =
     (case f of
        Utf8 s \<Rightarrow> Inr (universal_newlines s)
      | _ \<Rightarrow> Inl (Exc UnicodeDecodeError ''invalid start byte''))"

text \<open>Lines 32 to 36: UTF-8 first, UTF-16 when that fails.\<close>

definition read_text_utf8_utf16 :: "pyfile \<Rightarrow> pyexc + string" where
  "read_text_utf8_utf16 f =
     (case read_text f of
        Inr s \<Rightarrow> Inr s
      | Inl e \<Rightarrow>
          (case f of
             Utf16 s \<Rightarrow> Inr (universal_newlines s)
           | _ \<Rightarrow> Inl (Exc UnicodeDecodeError ''truncated data'')))"

section \<open>The pinned-list updater (requirements.txt)\<close>

text \<open>
  \<open>re.compile(f"^{re.escape(pkg)}([<>=!~]+.*)?$").match(clean_line)\<close>: the line starts
  with the package name, and what follows is empty or starts with an operator
  character. \<open>.\<close> matches no line feed and \<open>$\<close> also matches before a final line feed.
\<close>

definition is_op_char :: "char \<Rightarrow> bool" where
  "is_op_char c = (c \<in> set ''<>=!~'')"

definition dot_star_end :: "string \<Rightarrow> bool" where
  "dot_star_end r =
     (CHR 0x0A \<notin> set r \<or> (r \<noteq> [] \<and> last r = CHR 0x0A \<and> CHR 0x0A \<notin> set (butlast r)))"

definition req_pattern_match :: "string \<Rightarrow> string \<Rightarrow> bool" where
  "req_pattern_match pkg clean_line =
     (case strip_prefix pkg clean_line of
        None \<Rightarrow> False
      | Some r \<Rightarrow> r = [] \<or> r = [CHR 0x0A] \<or> (r \<noteq> [] \<and> is_op_char (hd r) \<and> dot_star_end (tl r)))"

text \<open>The inner loop over \<open>updates.items()\<close> stops at the first package whose pattern matches.\<close>

definition first_match :: "(string \<times> string) list \<Rightarrow> string \<Rightarrow> (string \<times> string) option" where
  "first_match updates clean_line =
     find (\<lambda>(pkg, fixed_ver). req_pattern_match pkg clean_line) updates"

text \<open>The three variables every line loop of the updaters carries.\<close>

record loop_state =
  new_lines :: "string list"
  modified :: bool
  updated_pkgs :: "string list"

definition loop_init :: loop_state where
  "loop_init = \<lparr>new_lines = [], modified = False, updated_pkgs = []\<rparr>"

text \<open>The body of the loop over the lines, lines 43 to 65.\<close>

definition python_line_step :: "(string \<times> string) list \<Rightarrow> loop_state \<Rightarrow> string \<Rightarrow> loop_state" where
  "python_line_step updates st line =
     (let clean_line = strip (before_hash line) in
      if clean_line = [] then st\<lparr>new_lines := new_lines st @ [line]\<rparr>
      else
        (case first_match updates clean_line of
           Some (pkg, fixed_ver) \<Rightarrow>
             (let comment = (if CHR ''#'' \<in> set line then '' #'' @ after_hash line else []);
                  new_line = pkg @ ''>='' @ fixed_ver @ comment
              in st\<lparr>new_lines := new_lines st @ [new_line], modified := True,
                    updated_pkgs := updated_pkgs st @ [pkg]\<rparr>)
         | None \<Rightarrow> st\<lparr>new_lines := new_lines st @ [line]\<rparr>))"

text \<open>\<open>PythonUpdater.update\<close>: the result, or the exception that leaves it, and the working tree afterwards.\<close>

definition PythonUpdater_update :: "fs \<Rightarrow> finding list \<Rightarrow> (pyexc + string list) \<times> fs" where
  "PythonUpdater_update repo vulnerabilities =
     (case repo ''requirements.txt'' of
        None \<Rightarrow> (Inr [], repo)
      | Some req_file \<Rightarrow>
          (let updates = python_updates vulnerabilities in
           if updates = [] then (Inr [], repo)
           else
             (case read_text_utf8_utf16 req_file of
                Inl e \<Rightarrow> (Inl e, repo)
              | Inr content \<Rightarrow>
                  (let st = foldl (python_line_step updates) loop_init (splitlines content) in
                   if modified st then
                     (Inr (updated_pkgs st),
                      repo(''requirements.txt'' \<mapsto> Utf8 (join_with [CHR 0x0A] (new_lines st) @ [CHR 0x0A])))
                   else (Inr [], repo)))))"

section \<open>External tools\<close>

text \<open>
  What the updaters take from outside the repository's code: \<open>shutil.which\<close>,
  \<open>subprocess.run(cmd, cwd=repo_path)\<close> (its return code, and the working tree the
  command leaves), and the standard library's \<open>json.loads\<close> (\<open>None\<close> for a
  \<open>JSONDecodeError\<close>) and \<open>json.dumps(data, indent=2)\<close>. JSON numbers are integers
  here.
\<close>

datatype json =
    JNull | JBool bool | JNum int | JStr string | JList "json list" | JDict "(string \<times> json) list"

record tools =
  which :: "string \<Rightarrow> bool"
  run :: "string list \<Rightarrow> fs \<Rightarrow> int \<times> fs"
  json_loads :: "string \<Rightarrow> json option"
  json_dumps :: "json \<Rightarrow> string"

section \<open>The dependency-map updater (package.json)\<close>

text \<open>\<open>k in s\<close> for two strings.\<close>

fun is_substring :: "string \<Rightarrow> string \<Rightarrow> bool" where
  "is_substring k [] = (k = [])"
| "is_substring k (c # cs) = (strip_prefix k (c # cs) \<noteq> None \<or> is_substring k cs)"

text \<open>
  \<open>key in obj\<close>, \<open>obj[key]\<close> and \<open>obj[key] = v\<close> for a string key and whatever value
  \<open>json.loads\<close> returned: only a dictionary supports all three.
\<close>

fun key_in :: "string \<Rightarrow> json \<Rightarrow> pyexc + bool" where
  "key_in k (JDict kvs) = Inr (map_of kvs k \<noteq> None)"
| "key_in k (JList xs) = Inr (JStr k \<in> set xs)"
| "key_in k (JStr s) = Inr (is_substring k s)"
| "key_in k _ = Inl (Exc TypeError ''argument is not iterable'')"

fun getitem :: "json \<Rightarrow> string \<Rightarrow> pyexc + json" where
  "getitem (JDict kvs) k = (case map_of kvs k of Some v \<Rightarrow> Inr v | None \<Rightarrow> Inl (Exc KeyError k))"
| "getitem _ k = Inl (Exc TypeError ''indices must be integers'')"

fun setitem :: "json \<Rightarrow> string \<Rightarrow> json \<Rightarrow> pyexc + json" where
  "setitem (JDict kvs) k v = Inr (JDict (AList.update k v kvs))"
| "setitem _ k v = Inl (Exc TypeError ''object does not support item assignment'')"

text \<open>
  Lines 99 to 107. The state of the two nested loops is \<open>data\<close>, \<open>modified\<close> (here
  \<open>changed\<close>) and \<open>updated_pkgs\<close> (here \<open>pkgs\<close>); an exception ends them.
\<close>

fun node_pkg_step ::
  "string \<Rightarrow> pyexc + json \<times> bool \<times> string list \<Rightarrow> string \<times> string
    \<Rightarrow> pyexc + json \<times> bool \<times> string list" where
  "node_pkg_step section (Inl e) (pkg, fixed_ver) = Inl e"
| "node_pkg_step section (Inr (data, changed, pkgs)) (pkg, fixed_ver) =
     (case getitem data section of
        Inl e \<Rightarrow> Inl e
      | Inr deps \<Rightarrow>
          (case key_in pkg deps of
             Inl e \<Rightarrow> Inl e
           | Inr False \<Rightarrow> Inr (data, changed, pkgs)
           | Inr True \<Rightarrow>
               (case setitem deps pkg (JStr fixed_ver) of
                  Inl e \<Rightarrow> Inl e
                | Inr deps' \<Rightarrow>
                    (case setitem data section deps' of
                       Inl e \<Rightarrow> Inl e
                     | Inr data' \<Rightarrow> Inr (data', True, pkgs @ [pkg])))))"

fun node_section_step ::
  "(string \<times> string) list \<Rightarrow> pyexc + json \<times> bool \<times> string list \<Rightarrow> string
    \<Rightarrow> pyexc + json \<times> bool \<times> string list" where
  "node_section_step updates (Inl e) section = Inl e"
| "node_section_step updates (Inr (data, changed, pkgs)) section =
     (case key_in section data of
        Inl e \<Rightarrow> Inl e
      | Inr False \<Rightarrow> Inr (data, changed, pkgs)
      | Inr True \<Rightarrow> foldl (node_pkg_step section) (Inr (data, changed, pkgs)) updates)"

text \<open>
  \<open>NodeUpdater.update\<close>. A failing \<open>npm install\<close> is caught, so the return code of the
  lockfile refresh does not show in the result.
\<close>

definition NodeUpdater_update :: "tools \<Rightarrow> fs \<Rightarrow> finding list \<Rightarrow> (pyexc + string list) \<times> fs" where
  "NodeUpdater_update t repo vulnerabilities =
     (case repo ''package.json'' of
        None \<Rightarrow> (Inr [], repo)
      | Some pkg_file \<Rightarrow>
          (let updates = plain_updates vulnerabilities in
           if updates = [] then (Inr [], repo)
           else
             (case read_text pkg_file of
                Inl e \<Rightarrow> (Inl e, repo)
              | Inr content \<Rightarrow>
                  (case json_loads t content of
                     None \<Rightarrow> (Inr [], repo)
                   | Some data0 \<Rightarrow>
                       (case foldl (node_section_step updates) (Inr (data0, False, []))
                               [''dependencies'', ''devDependencies''] of
                          Inl e \<Rightarrow> (Inl e, repo)
                        | Inr (data, changed, pkgs) \<Rightarrow>
                            if changed then
                              (let repo1 = repo(''package.json'' \<mapsto> Utf8 (json_dumps t data @ [CHR 0x0A])) in
                               if which t ''npm'' then
                                 (Inr pkgs,
                                  snd (run t [''npm'', ''install'', ''--package-lock-only''] repo1))
                               else (Inr pkgs, repo1))
                            else (Inr [], repo))))))"

section \<open>The declarative-table updater (pyproject.toml)\<close>

text \<open>
  The loop over \<open>updates.items()\<close> that calls the package manager (lines 149 to 161, with
  \<open>poetry add\<close>): a package counts as updated when the command returns 0; a
  \<open>CalledProcessError\<close> is caught.
\<close>

definition cli_step ::
  "tools \<Rightarrow> string list \<Rightarrow> string list \<times> fs \<Rightarrow> string \<times> string \<Rightarrow> string list \<times> fs" where
  "cli_step t cmd st item =
     (case (st, item) of
        ((pkgs, repo), (pkg, ver)) \<Rightarrow>
          (let (returncode, repo') = run t (cmd @ [pkg @ ''>='' @ ver]) repo in
           (if returncode = 0 then pkgs @ [pkg] else pkgs, repo')))"

text \<open>
  \<open>re.match(f'^{pkg}\\s*=', clean_line)\<close>. The package name is not escaped, so \<open>re\<close>
  reads it as a pattern. The model gives the match for names made of ordinary characters
  and of \<open>.\<close> (any character but a line feed); a name with another special character
  is outside the model.
\<close>

definition re_special :: "char \<Rightarrow> bool" where
  "re_special c = (c \<in> set [CHR 0x5C, CHR ''^'', CHR ''$'', CHR ''*'', CHR ''+'', CHR ''?'',
                             CHR ''{'', CHR ''}'', CHR ''['', CHR '']'', CHR ''|'', CHR ''('', CHR '')''])"

fun match_name :: "string \<Rightarrow> string \<Rightarrow> string option" where
  "match_name [] s = Some s"
| "match_name (p # ps) [] = None"
| "match_name (p # ps) (c # cs) =
     (if (p = CHR ''.'' \<and> c \<noteq> CHR 0x0A) \<or> (p \<noteq> CHR ''.'' \<and> p = c) then match_name ps cs else None)"

definition key_match :: "string \<Rightarrow> string \<Rightarrow> pyexc + bool" where
  "key_match pkg clean_line =
     (if list_ex re_special pkg then Inl (Exc OutsideModel ''package name with pattern syntax'')
      else Inr (case match_name pkg clean_line of
                  None \<Rightarrow> False
                | Some r \<Rightarrow> (case dropWhile isspace r of [] \<Rightarrow> False | c # cs \<Rightarrow> c = CHR ''='')))"

text \<open>The replacement text of \<open>re.sub\<close> is a template: a backslash in it is outside the model.\<close>

definition template_ok :: "string \<Rightarrow> bool" where
  "template_ok ver = (CHR 0x5C \<notin> set ver)"

text \<open>
  \<open>re.sub(r'"[^"]*"', repl, line)\<close> with no \<open>count\<close>: every quoted substring, from the
  left, is replaced.
\<close>

function sub_quoted :: "string \<Rightarrow> string \<Rightarrow> string" where
  "sub_quoted repl [] = []"
| "sub_quoted repl (c # cs) =
     (if c = CHR 0x22 \<and> CHR 0x22 \<in> set cs
      then repl @ sub_quoted repl (tl (dropWhile (\<lambda>x. x \<noteq> CHR 0x22) cs))
      else c # sub_quoted repl cs)"
  by pat_completeness auto
termination
proof (relation "measure (\<lambda>(repl, s). length s)")
  fix repl :: string and c :: char and cs :: string
  have "length (tl (dropWhile (\<lambda>x. x \<noteq> CHR 0x22) cs)) \<le> length cs"
    using length_dropWhile_le [of "\<lambda>x. x \<noteq> CHR 0x22" cs] by simp
  then show "((repl, tl (dropWhile (\<lambda>x. x \<noteq> CHR 0x22) cs)), (repl, c # cs))
               \<in> measure (\<lambda>(repl, s). length s)"
    by simp
qed simp_all

text \<open>
  The inner loop of the fallback (lines 175 to 192): the first pending package, not yet
  in \<open>updated_pkgs\<close>, whose pattern matches a line that holds a double quote.
\<close>

fun poetry_find ::
  "string list \<Rightarrow> string \<Rightarrow> string \<Rightarrow> (string \<times> string) list \<Rightarrow> pyexc + (string \<times> string) option" where
  "poetry_find pkgs clean_line line [] = Inr None"
| "poetry_find pkgs clean_line line ((pkg, ver) # rest) =
     (if pkg \<in> set pkgs then poetry_find pkgs clean_line line rest
      else
        (case key_match pkg clean_line of
           Inl e \<Rightarrow> Inl e
         | Inr False \<Rightarrow> poetry_find pkgs clean_line line rest
         | Inr True \<Rightarrow>
             if CHR 0x22 \<in> set line then Inr (Some (pkg, ver))
             else poetry_find pkgs clean_line line rest))"

fun poetry_line_step ::
  "(string \<times> string) list \<Rightarrow> pyexc + loop_state \<Rightarrow> string \<Rightarrow> pyexc + loop_state" where
  "poetry_line_step updates (Inl e) line = Inl e"
| "poetry_line_step updates (Inr st) line =
     (case poetry_find (updated_pkgs st) (strip line) line updates of
        Inl e \<Rightarrow> Inl e
      | Inr None \<Rightarrow> Inr (st\<lparr>new_lines := new_lines st @ [line]\<rparr>)
      | Inr (Some (pkg, ver)) \<Rightarrow>
          if template_ok ver then
            (let new_line = sub_quoted (CHR 0x22 # ver @ [CHR 0x22]) line in
             Inr (st\<lparr>new_lines := new_lines st @ [new_line], modified := True,
                      updated_pkgs := updated_pkgs st @ [pkg]\<rparr>))
          else Inl (Exc OutsideModel ''version with a backslash''))"

definition PoetryUpdater_update :: "tools \<Rightarrow> fs \<Rightarrow> finding list \<Rightarrow> (pyexc + string list) \<times> fs" where
  "PoetryUpdater_update t repo vulnerabilities =
     (case repo ''pyproject.toml'' of
        None \<Rightarrow> (Inr [], repo)
      | Some f0 \<Rightarrow>
          (let updates = plain_updates vulnerabilities in
           if updates = [] then (Inr [], repo)
           else
             (let (cli_pkgs, repo1) =
                    (if which t ''poetry'' then foldl (cli_step t [''poetry'', ''add'']) ([], repo) updates
                     else ([], repo))
              in if length cli_pkgs < length updates then
                   (case repo1 ''pyproject.toml'' of
                      None \<Rightarrow> (Inl (Exc OtherError ''No such file or directory''), repo1)
                    | Some pyproject \<Rightarrow>
                        (case read_text pyproject of
                           Inl e \<Rightarrow> (Inl e, repo1)
                         | Inr content \<Rightarrow>
                             (case foldl (poetry_line_step updates)
                                     (Inr (loop_init\<lparr>updated_pkgs := cli_pkgs\<rparr>)) (splitlines content) of
                                Inl e \<Rightarrow> (Inl e, repo1)
                              | Inr st \<Rightarrow>
                                  if modified st then
                                    (Inr (updated_pkgs st),
                                     repo1(''pyproject.toml'' \<mapsto>
                                       Utf8 (join_with [CHR 0x0A] (new_lines st) @ [CHR 0x0A])))
                                  else (Inr (updated_pkgs st), repo1))))
                 else (Inr cli_pkgs, repo1))))"

section \<open>The key-value updater (Pipfile)\<close>

text \<open>
  The loop that calls \<open>pipenv install\<close> (lines 219 to 231). The module never imports
  \<open>os\<close>, so building the argument \<open>env={**os.environ, ...}\<close> raises \<open>NameError\<close> on
  the first package, before \<open>subprocess.run\<close> is called; the handler of the loop catches
  \<open>CalledProcessError\<close> only.
\<close>

definition pipenv_cli :: "(string \<times> string) list \<Rightarrow> pyexc + string list" where
  "pipenv_cli updates =
     (case updates of
        [] \<Rightarrow> Inr []
      | item # rest \<Rightarrow> Inl (Exc NameError ''name os is not defined''))"

text \<open>\<open>s.replace(old, new)\<close>: every occurrence, from the left, without overlap.\<close>

function py_replace :: "string \<Rightarrow> string \<Rightarrow> string \<Rightarrow> string" where
  "py_replace old new [] = (if old = [] then new else [])"
| "py_replace old new (c # cs) =
     (if old = [] then new @ c # py_replace old new cs
      else
        (case strip_prefix old (c # cs) of
           Some rest \<Rightarrow> new @ py_replace old new rest
         | None \<Rightarrow> c # py_replace old new cs))"
  by pat_completeness auto
termination
proof (relation "measure (\<lambda>(old, new, s). length s)")
  have len: "strip_prefix p s = Some r \<Longrightarrow> length s = length p + length r" for p s r
    by (induction p s rule: strip_prefix.induct) (auto split: if_splits)
  fix old new :: string and c :: char and cs rest :: string
  assume "old \<noteq> []" and "strip_prefix old (c # cs) = Some rest"
  then have "length rest < length (c # cs)"
    using len [of old "c # cs" rest] by (cases old) auto
  then show "((old, new, rest), (old, new, c # cs)) \<in> measure (\<lambda>(old, new, s). length s)"
    by simp
qed simp_all

text \<open>\<open>re.search(r'"([^"]*)"', line)\<close>: the text between the first two double quotes.\<close>

definition first_quoted :: "string \<Rightarrow> string option" where
  "first_quoted line =
     (let rest = dropWhile (\<lambda>x. x \<noteq> CHR 0x22) line in
      if rest \<noteq> [] \<and> CHR 0x22 \<in> set (tl rest)
      then Some (takeWhile (\<lambda>x. x \<noteq> CHR 0x22) (tl rest)) else None)"

text \<open>The inner loop of the fallback, lines 244 to 273.\<close>

fun pipenv_find ::
  "string list \<Rightarrow> string \<Rightarrow> string \<Rightarrow> (string \<times> string) list
    \<Rightarrow> pyexc + (string \<times> string \<times> string) option" where
  "pipenv_find pkgs clean_line line [] = Inr None"
| "pipenv_find pkgs clean_line line ((pkg, ver) # rest) =
     (if pkg \<in> set pkgs then pipenv_find pkgs clean_line line rest
      else
        (case key_match pkg clean_line of
           Inl e \<Rightarrow> Inl e
         | Inr False \<Rightarrow> pipenv_find pkgs clean_line line rest
         | Inr True \<Rightarrow>
             if CHR 0x22 \<in> set line then
               (case first_quoted line of
                  Some old_ver_str \<Rightarrow> Inr (Some (pkg, ver, old_ver_str))
                | None \<Rightarrow> pipenv_find pkgs clean_line line rest)
             else pipenv_find pkgs clean_line line rest))"

fun pipenv_line_step ::
  "(string \<times> string) list \<Rightarrow> pyexc + loop_state \<Rightarrow> string \<Rightarrow> pyexc + loop_state" where
  "pipenv_line_step updates (Inl e) line = Inl e"
| "pipenv_line_step updates (Inr st) line =
     (case pipenv_find (updated_pkgs st) (strip line) line updates of
        Inl e \<Rightarrow> Inl e
      | Inr None \<Rightarrow> Inr (st\<lparr>new_lines := new_lines st @ [line]\<rparr>)
      | Inr (Some (pkg, ver, old_ver_str)) \<Rightarrow>
          (let new_ver_str = (if strip_prefix ''=='' old_ver_str \<noteq> None then ''=='' @ ver else ver);
               new_line = py_replace (CHR 0x22 # old_ver_str @ [CHR 0x22])
                                     (CHR 0x22 # new_ver_str @ [CHR 0x22]) line
           in Inr (st\<lparr>new_lines := new_lines st @ [new_line], modified := True,
                       updated_pkgs := updated_pkgs st @ [pkg]\<rparr>)))"

definition PipenvUpdater_update :: "tools \<Rightarrow> fs \<Rightarrow> finding list \<Rightarrow> (pyexc + string list) \<times> fs" where
  "PipenvUpdater_update t repo vulnerabilities =
     (case repo ''Pipfile'' of
        None \<Rightarrow> (Inr [], repo)
      | Some pipfile \<Rightarrow>
          (let updates = plain_updates vulnerabilities in
           if updates = [] then (Inr [], repo)
           else
             (case (if which t ''pipenv'' then pipenv_cli updates else Inr []) of
                Inl e \<Rightarrow> (Inl e, repo)
              | Inr cli_pkgs \<Rightarrow>
                  if length cli_pkgs < length updates then
                    (case read_text pipfile of
                       Inl e \<Rightarrow> (Inl e, repo)
                     | Inr content \<Rightarrow>
                         (case foldl (pipenv_line_step updates)
                                 (Inr (loop_init\<lparr>updated_pkgs := cli_pkgs\<rparr>)) (splitlines content) of
                            Inl e \<Rightarrow> (Inl e, repo)
                          | Inr st \<Rightarrow>
                              if modified st then
                                (Inr (updated_pkgs st),
                                 repo(''Pipfile'' \<mapsto>
                                   Utf8 (join_with [CHR 0x0A] (new_lines st) @ [CHR 0x0A])))
                              else (Inr (updated_pkgs st), repo)))
                  else (Inr cli_pkgs, repo))))"

section \<open>The tag-structured updater (pom.xml)\<close>

text \<open>Lines 314 to 316: the part of the package name after its first colon.\<close>

definition artifact_id_of :: "string \<Rightarrow> string" where
  "artifact_id_of pkg =
     (if CHR '':'' \<in> set pkg then tl (dropWhile (\<lambda>c. c \<noteq> CHR '':'') pkg) else pkg)"

text \<open>
  The pattern
  \<open>(<artifactId>ARTIFACT</artifactId>\s*<version>)([^<]+)(</version>)\<close>
  tried at the head of a text: the first group, the second group and what follows the
  match. The artifact is escaped, so it is matched as it stands; \<open>\s*\<close> and \<open>[^<]+\<close>
  are followed by a \<open><\<close>, which neither class holds, so the longest run is the only
  one that can match.
\<close>

definition pom_match :: "string \<Rightarrow> string \<Rightarrow> (string \<times> string \<times> string) option" where
  "pom_match artifact_id s =
     (case strip_prefix (''<artifactId>'' @ artifact_id @ ''</artifactId>'') s of
        None \<Rightarrow> None
      | Some r1 \<Rightarrow>
          (case strip_prefix ''<version>'' (dropWhile isspace r1) of
             None \<Rightarrow> None
           | Some r2 \<Rightarrow>
               (let old = takeWhile (\<lambda>c. c \<noteq> CHR ''<'') r2 in
                if old = [] then None
                else
                  (case strip_prefix ''</version>'' (dropWhile (\<lambda>c. c \<noteq> CHR ''<'') r2) of
                     None \<Rightarrow> None
                   | Some rest \<Rightarrow>
                       Some (''<artifactId>'' @ artifact_id @ ''</artifactId>''
                               @ takeWhile isspace r1 @ ''<version>'', old, rest)))))"

text \<open>\<open>pattern.search(content)\<close>: a match at some position.\<close>

fun pom_search :: "string \<Rightarrow> string \<Rightarrow> bool" where
  "pom_search artifact_id [] = False"
| "pom_search artifact_id (c # cs) = (pom_match artifact_id (c # cs) \<noteq> None \<or> pom_search artifact_id cs)"

text \<open>\<open>pattern.sub(f"\\g<1>{ver}\\g<3>", content)\<close>: every match, from the left.\<close>

function pom_sub :: "string \<Rightarrow> string \<Rightarrow> string \<Rightarrow> string" where
  "pom_sub artifact_id ver [] = []"
| "pom_sub artifact_id ver (c # cs) =
     (case pom_match artifact_id (c # cs) of
        Some (g1, old, rest) \<Rightarrow> g1 @ ver @ ''</version>'' @ pom_sub artifact_id ver rest
      | None \<Rightarrow> c # pom_sub artifact_id ver cs)"
  by pat_completeness auto
termination
proof (relation "measure (\<lambda>(artifact_id, ver, s). length s)")
  have len: "strip_prefix p s = Some r \<Longrightarrow> length s = length p + length r" for p s r
    by (induction p s rule: strip_prefix.induct) (auto split: if_splits)
  fix artifact_id ver :: string and c :: char and cs g1 old rest :: string
    and m :: "string \<times> string \<times> string" and x :: "string \<times> string"
  assume m: "pom_match artifact_id (c # cs) = Some m" and x: "(g1, x) = m" "(old, rest) = x"
  from m x obtain r1 r2 where
    r1: "strip_prefix (''<artifactId>'' @ artifact_id @ ''</artifactId>'') (c # cs) = Some r1" and
    r2: "strip_prefix ''<version>'' (dropWhile isspace r1) = Some r2" and
    r3: "strip_prefix ''</version>'' (dropWhile (\<lambda>c. c \<noteq> CHR ''<'') r2) = Some rest"
    unfolding pom_match_def by (auto simp: Let_def split: option.splits if_splits)
  have "length rest \<le> length (dropWhile (\<lambda>c. c \<noteq> CHR ''<'') r2)"
    using len [OF r3] by simp
  also have "\<dots> \<le> length r2" by (rule length_dropWhile_le)
  also have "\<dots> \<le> length (dropWhile isspace r1)" using len [OF r2] by simp
  also have "\<dots> \<le> length r1" by (rule length_dropWhile_le)
  also have "\<dots> < length (c # cs)" using len [OF r1] by simp
  finally show "((artifact_id, ver, rest), (artifact_id, ver, c # cs))
                  \<in> measure (\<lambda>(artifact_id, ver, s). length s)"
    by simp
qed simp_all

text \<open>The loop over \<open>updates.items()\<close>, lines 310 to 331, on \<open>content\<close> and \<open>updated_pkgs\<close>.\<close>

fun maven_step :: "pyexc + string \<times> string list \<Rightarrow> string \<times> string \<Rightarrow> pyexc + string \<times> string list" where
  "maven_step (Inl e) (pkg, ver) = Inl e"
| "maven_step (Inr (content, pkgs)) (pkg, ver) =
     (let artifact_id = artifact_id_of pkg in
      if pom_search artifact_id content then
        (if template_ok ver then Inr (pom_sub artifact_id ver content, pkgs @ [pkg])
         else Inl (Exc OutsideModel ''version with a backslash''))
      else Inr (content, pkgs))"

definition MavenUpdater_update :: "fs \<Rightarrow> finding list \<Rightarrow> (pyexc + string list) \<times> fs" where
  "MavenUpdater_update repo vulnerabilities =
     (case repo ''pom.xml'' of
        None \<Rightarrow> (Inr [], repo)
      | Some pom \<Rightarrow>
          (let updates = plain_updates vulnerabilities in
           if updates = [] then (Inr [], repo)
           else
             (case read_text pom of
                Inl e \<Rightarrow> (Inl e, repo)
              | Inr original_content \<Rightarrow>
                  (case foldl maven_step (Inr (original_content, [])) updates of
                     Inl e \<Rightarrow> (Inl e, repo)
                   | Inr (content, pkgs) \<Rightarrow>
                       if content \<noteq> original_content
                       then (Inr pkgs, repo(''pom.xml'' \<mapsto> Utf8 content))
                       else (Inr [], repo)))))"

section \<open>The dispatcher\<close>

text \<open>
  \<open>DependencyUpdater.update_dependencies\<close>: the five updaters in their fixed order. The
  loop has no handler, so an exception of one updater leaves the loop and the function.
\<close>

definition dispatch_step ::
  "finding list \<Rightarrow> (pyexc + string list) \<times> fs \<Rightarrow> (fs \<Rightarrow> finding list \<Rightarrow> (pyexc + string list) \<times> fs)
    \<Rightarrow> (pyexc + string list) \<times> fs" where
  "dispatch_step vulnerabilities st updater =
     (case st of
        (Inl e, repo) \<Rightarrow> (Inl e, repo)
      | (Inr all_updated, repo) \<Rightarrow>
          (case updater repo vulnerabilities of
             (Inl e, repo') \<Rightarrow> (Inl e, repo')
           | (Inr updated, repo') \<Rightarrow> (Inr (all_updated @ updated), repo')))"

definition updaters :: "tools \<Rightarrow> (fs \<Rightarrow> finding list \<Rightarrow> (pyexc + string list) \<times> fs) list" where
  "updaters t = [PythonUpdater_update, NodeUpdater_update t, PoetryUpdater_update t,
                 PipenvUpdater_update t, MavenUpdater_update]"

definition update_dependencies :: "tools \<Rightarrow> fs \<Rightarrow> finding list \<Rightarrow> (pyexc + string list) \<times> fs" where
  "update_dependencies t repo vulnerabilities =
     foldl (dispatch_step vulnerabilities) (Inr [], repo) (updaters t)"

section \<open>The finding normalizer\<close>

text \<open>
  A scan report is the dictionary \<open>json.loads\<close> made of Trivy's output. The code reads
  two of its keys and tests the dictionary for emptiness, so a key is \<open>Missing\<close>,
  \<open>Null\<close> or holds a value, and \<open>other_keys\<close> says whether the dictionary has further
  keys. In a result, \<open>None\<close> stands for a key that is missing or null.
\<close>

datatype 'a field = Missing | Null | Val 'a

definition field_get :: "'a field \<Rightarrow> 'a option" where
  "field_get f = (case f of Val x \<Rightarrow> Some x | _ \<Rightarrow> None)"

record scan_result =
  Vulnerabilities :: "finding list option"
  vulnerabilities :: "finding list option"

record report =
  Results :: "scan_result list field"
  results :: "scan_result list field"
  other_keys :: bool

text \<open>\<open>a or b or []\<close> for two values that are a list or \<open>None\<close>.\<close>

definition or_list :: "'a list option \<Rightarrow> 'a list option \<Rightarrow> 'a list" where
  "or_list a b =
     (case a of
        Some (x # xs) \<Rightarrow> x # xs
      | _ \<Rightarrow> (case b of Some (y # ys) \<Rightarrow> y # ys | _ \<Rightarrow> []))"

definition parse_trivy_report :: "report \<Rightarrow> finding list" where
  "parse_trivy_report r =
     concat (map (\<lambda>res. or_list (Vulnerabilities res) (vulnerabilities res))
                 (or_list (field_get (Results r)) (field_get (results r))))"

text \<open>\<open>bool(report)\<close>: a dictionary with at least one key.\<close>

definition report_truthy :: "report \<Rightarrow> bool" where
  "report_truthy r = (Results r \<noteq> Missing \<or> results r \<noteq> Missing \<or> other_keys r)"

text \<open>The severity filter of \<open>run_repo\<close>, line 60.\<close>

definition high_medium :: "finding list \<Rightarrow> finding list" where
  "high_medium vulns = filter (\<lambda>v. Severity v = Some ''HIGH'' \<or> Severity v = Some ''MEDIUM'') vulns"

section \<open>The collaborators of a run\<close>

text \<open>
  What a run calls outside the updaters. The git operations, the image build and the
  scan are given by their results: an exception or a value, as the handlers of
  \<open>run_repo\<close> tell them apart (\<open>clone_repo\<close> returns the working tree of the clone).
  \<open>shell\<close> is \<open>subprocess.run(test_command, shell=True)\<close>: an exception or a return
  code. \<open>http_post\<close> and \<open>http_get\<close> are the two requests of \<open>create_pr\<close>.
\<close>

record http_response =
  status_code :: int
  resp_text :: string
  html_url :: "string option"

record collaborators =
  token :: "string option"
  clone_repo :: "string \<Rightarrow> string \<Rightarrow> pyexc + fs"
  build_image :: "fs \<Rightarrow> string \<Rightarrow> bool"
  scan_image :: "string \<Rightarrow> report option"
  create_branch :: "fs \<Rightarrow> string \<Rightarrow> pyexc option"
  updater_tools :: tools
  shell :: "string \<Rightarrow> fs \<Rightarrow> pyexc + int"
  commit_changes :: "fs \<Rightarrow> string \<Rightarrow> pyexc option"
  push_changes :: "fs \<Rightarrow> string \<Rightarrow> pyexc option"
  http_post :: "string \<Rightarrow> string \<Rightarrow> string \<Rightarrow> string \<Rightarrow> http_response"
  http_get :: "string \<Rightarrow> pyexc + int \<times> string option list"

text \<open>\<open>TestRunner.run_tests\<close>: every exception is caught and counts as a failed run.\<close>

definition run_tests :: "(string \<Rightarrow> fs \<Rightarrow> pyexc + int) \<Rightarrow> fs \<Rightarrow> string option \<Rightarrow> bool" where
  "run_tests sh repo_path test_command =
     (let test_command = (if truthy test_command then the test_command else ''pytest'') in
      case sh test_command repo_path of
        Inl e \<Rightarrow> False
      | Inr returncode \<Rightarrow> returncode = 0)"

text \<open>\<open>s.split(sep)\<close> for a separator of one character.\<close>

fun split_from :: "char \<Rightarrow> string \<Rightarrow> string \<Rightarrow> string list" where
  "split_from sep cur [] = [rev cur]"
| "split_from sep cur (c # cs) =
     (if c = sep then rev cur # split_from sep [] cs else split_from sep (c # cur) cs)"

text \<open>
  \<open>GitClient.create_pr\<close>, with the list \<open>parts\<close> and the two addresses it builds from it
  (\<open>owner\<close> is \<open>parts[-2]\<close>, read only when there are two parts). The answer of the second request is its status code and the
  \<open>html_url\<close> of each listed request; whatever fails inside the \<open>try\<close> is caught
  there, so it is one case.
\<close>

definition url_parts :: "string \<Rightarrow> string list" where
  "url_parts repo_url = split_from CHR ''/'' [] (py_replace ''.git'' [] repo_url)"

definition api_url_of :: "string list \<Rightarrow> string" where
  "api_url_of parts =
     (let owner = parts ! (length parts - 2); repo_name = last parts
      in ''https://api.github.com/repos/'' @ owner @ ''/'' @ repo_name @ ''/pulls'')"

definition query_url_of :: "string list \<Rightarrow> string \<Rightarrow> string" where
  "query_url_of parts branch_name =
     api_url_of parts @ ''?head='' @ parts ! (length parts - 2) @ '':'' @ branch_name"

definition create_pr ::
  "collaborators \<Rightarrow> string \<Rightarrow> string \<Rightarrow> string \<Rightarrow> string \<Rightarrow> pyexc + string option" where
  "create_pr c repo_url branch_name title pr_body =
     (if \<not> truthy (token c) then Inr (Some ''skipped'')
      else
        (let parts = url_parts repo_url in
         if length parts < 2 then Inl (Exc IndexError ''list index out of range'')
         else
           (let response = http_post c (api_url_of parts) title pr_body branch_name
            in if status_code response = 201 then Inr (html_url response)
               else if status_code response = 422
                       \<and> is_substring ''A pull request already exists'' (resp_text response) then
                 (case http_get c (query_url_of parts branch_name) of
                    Inl e \<Rightarrow> Inr (Some ''exists'')
                  | Inr (code, pulls) \<Rightarrow>
                      (if code = 200 \<and> pulls \<noteq> [] then Inr (hd pulls) else Inr (Some ''exists'')))
               else Inr (Some ''failed''))))"

section \<open>The pipeline orchestrator\<close>

record repo_config =
  url :: string
  name :: string
  test_command :: "string option"

text \<open>
  The dictionary \<open>run_repo\<close> returns, by its four shapes: failed at a step with an error
  text; success with no action; skipped; success with the reference of the change
  request.
\<close>

datatype outcome =
    Failed string string
  | NoAction
  | Skipped
  | PrCreated "string option"

definition status :: "outcome \<Rightarrow> string" where
  "status r = (case r of Failed step err \<Rightarrow> ''failed'' | NoAction \<Rightarrow> ''success''
               | Skipped \<Rightarrow> ''skipped'' | PrCreated u \<Rightarrow> ''success'')"

text \<open>
  The calls a run makes to its collaborators and the two files it writes, in the order
  it makes them. A call is recorded when it is made, whatever it returns.
\<close>

datatype event =
    EvClone string
  | EvBuild string
  | EvScan string
  | EvSaveReport string
  | EvCreateBranch string
  | EvUpdateDependencies
  | EvSaveSummary string
  | EvRunTests
  | EvCommit
  | EvPush string
  | EvCreatePr string

text \<open>\<open>str(n)\<close> for a length.\<close>

fun str_nat :: "nat \<Rightarrow> string" where
  "str_nat n =
     (if n < 10 then [''0123456789'' ! n]
      else str_nat (n div 10) @ [''0123456789'' ! (n mod 10)])"

text \<open>The names and texts \<open>run_repo\<close> builds with f-strings (lines 43, 69, 123 to 125 and 130).\<close>

definition image_name_of :: "string \<Rightarrow> string" where
  "image_name_of repo_name = repo_name @ '':security-scan''"

definition branch_name_of :: "finding list \<Rightarrow> string" where
  "branch_name_of high_medium_vulns = ''security/fix-vulns-'' @ str_nat (length high_medium_vulns)"

definition pr_title_of :: "string \<Rightarrow> string" where
  "pr_title_of repo_name = ''Security Fixes for '' @ repo_name"

definition pr_body_of :: "string list \<Rightarrow> string" where
  "pr_body_of updated_packages =
     ''This PR updates dependencies to fix vulnerabilities detected by Trivy.''
       @ [CHR 0x0A, CHR 0x0A] @ ''**Fixed**: '' @ join_with '', '' updated_packages
       @ [CHR 0x0A, CHR 0x0A] @ ''See attached report for details.''"

text \<open>
  \<open>RepoRunner.run_repo\<close>: the outcome, or the exception that leaves the function, and the
  events of the run. The contents of the saved report and of the summary are not
  modelled.
\<close>

definition run_repo ::
  "collaborators \<Rightarrow> repo_config \<Rightarrow> string \<Rightarrow> (pyexc + outcome) \<times> event list" where
  "run_repo c repo_config work_dir =
     (let repo_url = url repo_config;
          repo_name = name repo_config;
          test_cmd = test_command repo_config;
          tr1 = [EvClone repo_url]
      in case clone_repo c repo_url work_dir of
           Inl e \<Rightarrow> (Inr (Failed ''clone'' (exc_str e)), tr1)
         | Inr repo_path \<Rightarrow>
     (let image_name = image_name_of repo_name;
          tr2 = tr1 @ [EvBuild image_name]
      in if \<not> build_image c repo_path image_name
         then (Inr (Failed ''build'' ''Docker build failed''), tr2)
         else
     (let tr3 = tr2 @ [EvScan image_name]
      in case scan_image c image_name of
           None \<Rightarrow> (Inr (Failed ''scan'' ''Trivy scan failed''), tr3)
         | Some report \<Rightarrow>
     (if \<not> report_truthy report then (Inr (Failed ''scan'' ''Trivy scan failed''), tr3)
      else
     (let tr4 = tr3 @ [EvSaveReport (repo_name @ ''_trivy_report.json'')];
          vulns = parse_trivy_report report;
          high_medium_vulns = high_medium vulns
      in if high_medium_vulns = [] then (Inr NoAction, tr4)
         else
     (let branch_name = branch_name_of high_medium_vulns;
          tr5 = tr4 @ [EvCreateBranch branch_name]
      in case create_branch c repo_path branch_name of
           Some e \<Rightarrow> (Inr (Failed ''git_branch'' (exc_str e)), tr5)
         | None \<Rightarrow>
     (let tr6 = tr5 @ [EvUpdateDependencies]
      in case update_dependencies (updater_tools c) repo_path high_medium_vulns of
           (Inl e, repo') \<Rightarrow> (Inl e, tr6)
         | (Inr updated_packages, repo') \<Rightarrow>
     (let tr7 = tr6 @ [EvSaveSummary (repo_name @ ''_security_summary.md'')]
      in if updated_packages = [] then (Inr Skipped, tr7)
         else
     (let tr8 = tr7 @ [EvRunTests]
      in if \<not> run_tests (shell c) repo' test_cmd
         then (Inr (Failed ''tests'' ''Tests failed after update''), tr8)
         else
     (let tr9 = tr8 @ [EvCommit]
      in case commit_changes c repo' ''Security: Update dependencies to fix vulnerabilities'' of
           Some e \<Rightarrow> (Inr (Failed ''git_push'' (exc_str e)), tr9)
         | None \<Rightarrow>
     (let tr10 = tr9 @ [EvPush branch_name]
      in case push_changes c repo' branch_name of
           Some e \<Rightarrow> (Inr (Failed ''git_push'' (exc_str e)), tr10)
         | None \<Rightarrow>
     (let pr_body = pr_body_of updated_packages;
          tr11 = tr10 @ [EvCreatePr branch_name]
      in case create_pr c repo_url branch_name (pr_title_of repo_name) pr_body of
           Inl e \<Rightarrow> (Inl e, tr11)
         | Inr pr_url \<Rightarrow>
             if pr_url = Some ''failed''
             then (Inr (Failed ''pr_creation'' ''PR creation failed''), tr11)
             else (Inr (PrCreated pr_url), tr11)))))))))))))"

section \<open>Sample inputs\<close>

text \<open>
  Concrete inputs for the instances below: a finding with a package and a fixed
  version, a machine on which \<open>shutil.which\<close> finds none of the tools, and one on which
  it finds \<open>pipenv\<close> only.
\<close>

definition fixing :: "string \<Rightarrow> string \<Rightarrow> finding" where
  "fixing pkg fixed =
     \<lparr>PkgName = Some pkg, FixedVersion = Some fixed, Severity = Some ''HIGH'',
      VulnerabilityID = Some ''CVE-2020-1234''\<rparr>"

definition no_tools :: tools where
  "no_tools = \<lparr>which = (\<lambda>tool. False), run = (\<lambda>cmd repo. (1, repo)),
               json_loads = (\<lambda>s. None), json_dumps = (\<lambda>j. [])\<rparr>"

definition pipenv_only :: tools where
  "pipenv_only = no_tools\<lparr>which := (\<lambda>tool. tool = ''pipenv'')\<rparr>"

text \<open>
  A working tree with one pinned requirement, a report with one HIGH finding for it, the
  empty report \<open>{}\<close>, a repository descriptor, and collaborators that all succeed,
  except that the tests fail and no token is configured.
\<close>

definition sample_repo :: fs where
  "sample_repo = [''requirements.txt'' \<mapsto> Utf8 (''requests==2.0.0'' @ [CHR 0x0A])]"

definition sample_report :: report where
  "sample_report =
     \<lparr>Results = Val [\<lparr>Vulnerabilities = Some [fixing ''requests'' ''2.31.0''], vulnerabilities = None\<rparr>],
      results = Missing, other_keys = True\<rparr>"

definition low_report :: report where
  "low_report =
     \<lparr>Results = Val [\<lparr>Vulnerabilities = Some [(fixing ''requests'' ''2.31.0'')\<lparr>Severity := Some ''LOW''\<rparr>],
                       vulnerabilities = None\<rparr>],
      results = Missing, other_keys = True\<rparr>"

definition empty_report :: report where
  "empty_report = \<lparr>Results = Missing, results = Missing, other_keys = False\<rparr>"

definition sample_config :: repo_config where
  "sample_config = \<lparr>url = ''https://github.com/owner/repo.git'', name = ''repo'', test_command = None\<rparr>"

definition sample_collaborators :: collaborators where
  "sample_collaborators =
     \<lparr>token = None,
      clone_repo = (\<lambda>repo_url dest. Inr sample_repo),
      build_image = (\<lambda>repo_path image_name. True),
      scan_image = (\<lambda>image_name. Some sample_report),
      create_branch = (\<lambda>repo_path branch_name. None),
      updater_tools = no_tools,
      shell = (\<lambda>cmd repo_path. Inr 1),
      commit_changes = (\<lambda>repo_path message. None),
      push_changes = (\<lambda>repo_path branch_name. None),
      http_post = (\<lambda>api_url title pr_body head.
                     \<lparr>status_code = 422, resp_text = ''A pull request already exists for owner:branch'',
                      html_url = None\<rparr>),
      http_get = (\<lambda>query_url. Inr (404, []))\<rparr>"

text \<open>
  Variants of the collaborators: the scan returns the empty report; the scan returns a
  report with one LOW finding; the tests pass; the tests pass and a token is configured;
  and, with the token, the remote answers the request with status 500.
\<close>

definition empty_scan_collaborators :: collaborators where
  "empty_scan_collaborators = sample_collaborators\<lparr>scan_image := (\<lambda>image_name. Some empty_report)\<rparr>"

definition low_scan_collaborators :: collaborators where
  "low_scan_collaborators = sample_collaborators\<lparr>scan_image := (\<lambda>image_name. Some low_report)\<rparr>"

definition passing_collaborators :: collaborators where
  "passing_collaborators = sample_collaborators\<lparr>shell := (\<lambda>cmd repo_path. Inr 0)\<rparr>"

definition token_collaborators :: collaborators where
  "token_collaborators = passing_collaborators\<lparr>token := Some ''ghp_token''\<rparr>"

definition rejected_collaborators :: collaborators where
  "rejected_collaborators =
     token_collaborators\<lparr>http_post := (\<lambda>api_url title pr_body head.
        \<lparr>status_code = 500, resp_text = ''Server Error'', html_url = None\<rparr>)\<rparr>"

text \<open>
  A working tree with a Pipfile and a pom.xml, with a finding for a package of each; and
  a pyproject.toml whose one dependency is written as an inline table.
\<close>

definition two_manifests :: fs where
  \<open>two_manifests =
     [''Pipfile'' \<mapsto> Utf8 ''requests = "==2.25.1"'',
      ''pom.xml'' \<mapsto> Utf8 ''<artifactId>jackson-databind</artifactId><version>2.10.0</version>'']\<close>

definition two_findings :: "finding list" where
  "two_findings = [fixing ''requests'' ''2.26.0'', fixing ''jackson-databind'' ''2.12.0'']"

definition inline_table_project :: fs where
  \<open>inline_table_project =
     [''pyproject.toml'' \<mapsto> Utf8 ''requests = {version = "2.25.1", extras = ["socks"]}'']\<close>

definition sample_pom :: fs where
  "sample_pom =
     [''pom.xml'' \<mapsto> Utf8 (''<dependency>''
        @ ''<artifactId>jackson-databind</artifactId><version>2.10.0</version>'' @ ''</dependency>'')]"

text \<open>A pom.xml with one element a line and the line endings of Windows.\<close>

definition crlf_pom :: fs where
  "crlf_pom =
     [''pom.xml'' \<mapsto> Utf8 (''<project>'' @ [CHR 0x0D, CHR 0x0A]
        @ ''<artifactId>jackson-databind</artifactId><version>2.10.0</version>'' @ [CHR 0x0D, CHR 0x0A]
        @ ''</project>'' @ [CHR 0x0D, CHR 0x0A])]"

text \<open>
  Three requirements files: a pinned line with a comment and a second requirement; the
  same pinned line followed by a blank line; and one pinned line.
\<close>

definition noted_repo :: fs where
  "noted_repo =
     [''requirements.txt'' \<mapsto> Utf8 (''pkg>=1.0.0 # note'' @ [CHR 0x0A] @ ''numpy==1.18.0'' @ [CHR 0x0A])]"

definition blank_tail_repo :: fs where
  "blank_tail_repo =
     [''requirements.txt'' \<mapsto> Utf8 (''pkg>=1.0.0 # note'' @ [CHR 0x0A, CHR 0x0A])]"

definition one_pin_repo :: fs where
  "one_pin_repo = [''requirements.txt'' \<mapsto> Utf8 (''a==0'' @ [CHR 0x0A])]"

section \<open>Notions used to state the properties\<close>

text \<open>
  \<open>only_versions_differ a ver s s'\<close>: the text \<open>s'\<close> is \<open>s\<close> in which the text of
  some version tags has been replaced by \<open>ver\<close>: tags that follow the tag of the
  artifact \<open>a\<close> after white space only, and whose old text is not empty and holds no
  \<open><\<close>. Every other character is the same.
\<close>

inductive only_versions_differ :: "string \<Rightarrow> string \<Rightarrow> string \<Rightarrow> string \<Rightarrow> bool" where
  same_end: "only_versions_differ a ver [] []"
| same_char: "only_versions_differ a ver s s' \<Longrightarrow> only_versions_differ a ver (c # s) (c # s')"
| version_text:
    "only_versions_differ a ver rest rest' \<Longrightarrow> list_all isspace ws \<Longrightarrow> old \<noteq> []
     \<Longrightarrow> CHR ''<'' \<notin> set old \<Longrightarrow>
     only_versions_differ a ver
       (''<artifactId>'' @ a @ ''</artifactId>'' @ ws @ ''<version>'' @ old @ ''</version>'' @ rest)
       (''<artifactId>'' @ a @ ''</artifactId>'' @ ws @ ''<version>'' @ ver @ ''</version>'' @ rest')"

text \<open>
  \<open>no_tag_start p\<close>: no \<open><\<close> of \<open>p\<close> is its last character or is followed by an
  \<open>a\<close>, so no proper end of \<open>p\<close> can run into a text that starts with
  \<open><artifactId>\<close>.
\<close>

fun no_tag_start :: "string \<Rightarrow> bool" where
  "no_tag_start [] = True"
| "no_tag_start [c] = (c \<noteq> CHR ''<'')"
| "no_tag_start (c # d # cs) = ((c = CHR ''<'' \<longrightarrow> d \<noteq> CHR ''a'') \<and> no_tag_start (d # cs))"

text \<open>
  What the loop of the pinned-list updater does with one line: its clean line, whether
  a pending package matches it, the comment kept, the line appended to \<open>new_lines\<close>, and
  the packages appended to \<open>updated_pkgs\<close>.
\<close>

definition clean_of :: "string \<Rightarrow> string" where
  "clean_of line = strip (before_hash line)"

definition touched :: "(string \<times> string) list \<Rightarrow> string \<Rightarrow> bool" where
  "touched updates line = (clean_of line \<noteq> [] \<and> first_match updates (clean_of line) \<noteq> None)"

definition comment_of :: "string \<Rightarrow> string" where
  "comment_of line = (if CHR ''#'' \<in> set line then '' #'' @ after_hash line else [])"

definition rewritten :: "(string \<times> string) list \<Rightarrow> string \<Rightarrow> string" where
  "rewritten updates line =
     (if touched updates line
      then (case the (first_match updates (clean_of line)) of
              (pkg, fixed_ver) \<Rightarrow> pkg @ ''>='' @ fixed_ver @ comment_of line)
      else line)"

definition line_pkgs :: "(string \<times> string) list \<Rightarrow> string \<Rightarrow> string list" where
  "line_pkgs updates line =
     (if touched updates line then [fst (the (first_match updates (clean_of line)))] else [])"


text \<open>
  A finding whose package name holds none of the operator characters \<open><>=!~\<close> and whose
  fixed version holds no \<open>#\<close> and no line boundary; and the same for an entry of an
  update set, whose package name is not empty.
\<close>

definition plain_finding :: "finding \<Rightarrow> bool" where
  "plain_finding f =
     ((case PkgName f of None \<Rightarrow> True | Some p \<Rightarrow> \<not> list_ex is_op_char p)
      \<and> (case FixedVersion f of None \<Rightarrow> True
          | Some v \<Rightarrow> CHR ''#'' \<notin> set v \<and> \<not> list_ex is_linebreak v))"

definition entry_ok :: "string \<times> string \<Rightarrow> bool" where
  "entry_ok e = (case e of (p, v) \<Rightarrow>
     p \<noteq> [] \<and> \<not> list_ex is_op_char p \<and> CHR ''#'' \<notin> set v \<and> \<not> list_ex is_linebreak v)"

section \<open>Properties\<close>

declare str_nat.simps [simp del]

lemmas string_defs =
  isspace_def is_linebreak_def strip_def before_hash_def after_hash_def last_alternative_def
  splitlines_def truthy_def

lemmas updates_defs =
  python_updates_def python_updates_step_def plain_updates_def plain_updates_step_def fixing_def

lemmas file_defs = read_text_def read_text_utf8_utf16_def universal_newlines_def loop_init_def

subsection \<open>Strings and lists\<close>

lemma strip_prefix_Some_iff: "strip_prefix p s = Some r \<longleftrightarrow> s = p @ r"
  by (induction p s rule: strip_prefix.induct) auto

lemma strip_prefix_self: "strip_prefix p (p @ r) = Some r"
  by (simp add: strip_prefix_Some_iff)

lemma dropWhile_append_stop: "\<not> P x \<Longrightarrow> dropWhile P (r @ x # t) = dropWhile P r @ x # t"
  by (induction r) auto

lemma takeWhile_append_stop: "\<not> P x \<Longrightarrow> takeWhile P (r @ x # t) = takeWhile P r"
  by (induction r) auto

lemma takeWhile_past:
  "x \<notin> set p \<Longrightarrow> takeWhile (\<lambda>c. c \<noteq> x) (p @ r) = p @ takeWhile (\<lambda>c. c \<noteq> x) r"
  by (induction p) auto

lemma dropWhile_past:
  "x \<notin> set p \<Longrightarrow> dropWhile (\<lambda>c. c \<noteq> x) (p @ r) = dropWhile (\<lambda>c. c \<noteq> x) r"
  by (induction p) auto

text \<open>Reading with universal newlines\<close>

lemma universal_newlines_id: "CHR 0x0D \<notin> set s \<Longrightarrow> universal_newlines s = s"
  unfolding universal_newlines_def by (induction s) auto

lemma splitlines_from_universal:
  "splitlines_from False cur (universal_newlines_from b s) = splitlines_from b cur s"
proof (induction s arbitrary: b cur)
  case Nil
  show ?case by simp
next
  case (Cons c cs)
  show ?case by (simp add: Cons is_linebreak_def)
qed

lemma splitlines_universal: "splitlines (universal_newlines s) = splitlines s"
  by (simp add: splitlines_def universal_newlines_def splitlines_from_universal)

subsection \<open>Update sets\<close>

text \<open>
  C5 (the update set of every updater holds, for a package, the last finding's fixed
  version reduced to its last comma-separated alternative). The loop of the pinned-list
  updater reduces the field; the loop shared by the four other updaters stores it as it
  stands. Evaluated on a finding that lists two candidates.
\<close>

theorem plain_updates_keep_alternatives:
  "plain_updates [fixing ''lodash'' ''4.17.19, 4.17.21''] = [(''lodash'', ''4.17.19, 4.17.21'')]
   \<and> python_updates [fixing ''lodash'' ''4.17.19, 4.17.21''] = [(''lodash'', ''4.17.21'')]"
  by (simp add: updates_defs string_defs)

subsection \<open>An absent manifest\<close>

text \<open>
  C8. Each of the five updaters, run on a working tree that does not hold its manifest,
  returns the empty list and the working tree it was given, whatever the findings.
\<close>

theorem absent_manifest_is_noop:
  "(repo ''requirements.txt'' = None \<longrightarrow> PythonUpdater_update repo vulns = (Inr [], repo))
   \<and> (repo ''package.json'' = None \<longrightarrow> NodeUpdater_update t repo vulns = (Inr [], repo))
   \<and> (repo ''pyproject.toml'' = None \<longrightarrow> PoetryUpdater_update t repo vulns = (Inr [], repo))
   \<and> (repo ''Pipfile'' = None \<longrightarrow> PipenvUpdater_update t repo vulns = (Inr [], repo))
   \<and> (repo ''pom.xml'' = None \<longrightarrow> MavenUpdater_update repo vulns = (Inr [], repo))"
  by (simp add: PythonUpdater_update_def NodeUpdater_update_def PoetryUpdater_update_def
      PipenvUpdater_update_def MavenUpdater_update_def)

theorem absent_manifest_is_noop_witness:
  "PythonUpdater_update Map.empty [fixing ''requests'' ''2.31.0''] = (Inr [], Map.empty)
   \<and> NodeUpdater_update no_tools Map.empty [fixing ''requests'' ''2.31.0''] = (Inr [], Map.empty)
   \<and> PoetryUpdater_update no_tools Map.empty [fixing ''requests'' ''2.31.0''] = (Inr [], Map.empty)
   \<and> PipenvUpdater_update no_tools Map.empty [fixing ''requests'' ''2.31.0''] = (Inr [], Map.empty)
   \<and> MavenUpdater_update Map.empty [fixing ''requests'' ''2.31.0''] = (Inr [], Map.empty)"
  using absent_manifest_is_noop [of Map.empty "[fixing ''requests'' ''2.31.0'']" no_tools]
  by simp


lemmas updater_defs =
  PythonUpdater_update_def NodeUpdater_update_def PoetryUpdater_update_def
  PipenvUpdater_update_def MavenUpdater_update_def update_dependencies_def updaters_def
  dispatch_step_def

lemmas python_defs =
  python_line_step_def first_match_def req_pattern_match_def is_op_char_def dot_star_end_def

lemmas text_fallback_defs =
  key_match_def re_special_def template_ok_def first_quoted_def pipenv_cli_def
  artifact_id_of_def pom_match_def

lemmas sample_defs =
  sample_repo_def sample_report_def low_report_def empty_report_def sample_config_def
  sample_collaborators_def no_tools_def pipenv_only_def empty_scan_collaborators_def
  low_scan_collaborators_def passing_collaborators_def token_collaborators_def
  rejected_collaborators_def two_manifests_def two_findings_def inline_table_project_def noted_repo_def
  blank_tail_repo_def one_pin_repo_def crlf_pom_def sample_pom_def

lemmas runner_defs =
  image_name_of_def branch_name_of_def pr_title_of_def pr_body_of_def parse_trivy_report_def
  or_list_def field_get_def report_truthy_def high_medium_def run_tests_def

subsection \<open>Failures inside an updater\<close>

text \<open>
  C4 (a failure while one package is processed is caught, and never aborts the remaining
  packages or the updaters that follow). Evaluated on a working tree with a Pipfile and
  a pom.xml, a finding for each, and \<open>pipenv\<close> installed: the \<open>NameError\<close> of the
  pipenv loop leaves the dispatcher, no list is returned and the pom.xml is not
  touched. On the same input without \<open>pipenv\<close> both packages are updated.
\<close>

theorem pipenv_failure_aborts_the_dispatcher:
  \<open>update_dependencies pipenv_only two_manifests two_findings
      = (Inl (Exc NameError ''name os is not defined''), two_manifests)
   \<and> fst (update_dependencies no_tools two_manifests two_findings)
      = Inr [''requests'', ''jackson-databind'']
   \<and> snd (update_dependencies no_tools two_manifests two_findings) ''pom.xml''
      = Some (Utf8 ''<artifactId>jackson-databind</artifactId><version>2.12.0</version>'')\<close>
  by (simp add: updater_defs text_fallback_defs sample_defs updates_defs string_defs file_defs)

subsection \<open>The text fallback of the declarative-table updater\<close>

text \<open>
  C6 (in the fallback, only the first quoted substring of a matching line is replaced and
  the rest of the line is kept). Evaluated on a dependency written as an inline table,
  without \<open>poetry\<close>: the substitution has no count, so the second quoted substring,
  the extra, is overwritten with the version as well.
\<close>

theorem poetry_fallback_replaces_every_quoted_substring:
  \<open>PoetryUpdater_update no_tools inline_table_project [fixing ''requests'' ''2.26.0'']
     = (Inr [''requests''],
        [''pyproject.toml'' \<mapsto> Utf8 ''requests = {version = "2.26.0", extras = ["2.26.0"]}\<newline>''])\<close>
  by (simp add: updater_defs text_fallback_defs sample_defs updates_defs string_defs file_defs)

subsection \<open>The orchestrator\<close>

lemma sample_high_medium:
  "high_medium (parse_trivy_report sample_report) = [fixing ''requests'' ''2.31.0'']"
  by (simp add: runner_defs sample_defs fixing_def)

lemma sample_update_dependencies:
  "update_dependencies no_tools sample_repo [fixing ''requests'' ''2.31.0'']
     = (Inr [''requests''], [''requirements.txt'' \<mapsto> Utf8 (''requests>=2.31.0'' @ [CHR 0x0A])])"
  by (simp add: updater_defs python_defs sample_defs updates_defs string_defs file_defs)

text \<open>
  C1, as amended. When the clone and the build succeed and the scan returns a report
  that is not empty (a dictionary with at least one key) and whose normalized findings
  hold no finding of severity exactly HIGH or MEDIUM, \<open>run_repo\<close> returns the success
  outcome with no action, and the run consists of the clone, the build, the scan and
  the saving of the report: no branch is created, no dependency is updated, nothing is
  committed, pushed or published.
\<close>

theorem no_high_medium_no_action:
  assumes "clone_repo c (url cfg) work_dir = Inr repo_path"
    and "build_image c repo_path (image_name_of (name cfg))"
    and "scan_image c (image_name_of (name cfg)) = Some report"
    and "report_truthy report"
    and "high_medium (parse_trivy_report report) = []"
  shows "run_repo c cfg work_dir =
           (Inr NoAction,
            [EvClone (url cfg), EvBuild (image_name_of (name cfg)), EvScan (image_name_of (name cfg)),
             EvSaveReport (name cfg @ ''_trivy_report.json'')])
         \<and> status NoAction = ''success''"
  using assms unfolding run_repo_def by (simp add: Let_def status_def)

theorem no_high_medium_no_action_witness:
  "run_repo low_scan_collaborators sample_config ''.'' =
     (Inr NoAction,
      [EvClone ''https://github.com/owner/repo.git'', EvBuild ''repo:security-scan'',
       EvScan ''repo:security-scan'', EvSaveReport ''repo_trivy_report.json''])"
  using no_high_medium_no_action [of low_scan_collaborators sample_config "''.''" sample_repo low_report]
  by (simp add: sample_defs runner_defs fixing_def)

text \<open>
  The claim as stated fails on the empty report \<open>{}\<close>: it has no finding at all, and the
  run ends as failed at the scan step, since \<open>run_repo\<close> takes an empty report for a
  failed scan.
\<close>

theorem empty_report_fails_at_scan:
  "high_medium (parse_trivy_report empty_report) = []
   \<and> run_repo empty_scan_collaborators sample_config ''.'' =
       (Inr (Failed ''scan'' ''Trivy scan failed''),
        [EvClone ''https://github.com/owner/repo.git'', EvBuild ''repo:security-scan'',
         EvScan ''repo:security-scan''])"
  by (simp add: run_repo_def sample_defs runner_defs Let_def)

text \<open>
  C2. When the run gets to the tests (the clone, the build, the scan and the branch
  succeed, at least one HIGH or MEDIUM finding exists and the dispatcher returns at
  least one updated package) and the test run does not pass, \<open>run_repo\<close> returns the
  failed outcome that names the step \<open>tests\<close>, and the run ends with the test run:
  it holds no commit, no push and no publication.
\<close>

theorem failing_tests_stop_the_run:
  assumes "clone_repo c (url cfg) work_dir = Inr repo_path"
    and "build_image c repo_path (image_name_of (name cfg))"
    and "scan_image c (image_name_of (name cfg)) = Some report"
    and "report_truthy report"
    and "high_medium (parse_trivy_report report) = hm" and "hm \<noteq> []"
    and "create_branch c repo_path (branch_name_of hm) = None"
    and "update_dependencies (updater_tools c) repo_path hm = (Inr updated_packages, repo')"
    and "updated_packages \<noteq> []"
    and "\<not> run_tests (shell c) repo' (test_command cfg)"
  shows "run_repo c cfg work_dir =
           (Inr (Failed ''tests'' ''Tests failed after update''),
            [EvClone (url cfg), EvBuild (image_name_of (name cfg)), EvScan (image_name_of (name cfg)),
             EvSaveReport (name cfg @ ''_trivy_report.json''), EvCreateBranch (branch_name_of hm),
             EvUpdateDependencies, EvSaveSummary (name cfg @ ''_security_summary.md''), EvRunTests])
         \<and> EvCommit \<notin> set (snd (run_repo c cfg work_dir))
         \<and> (\<forall>b. EvPush b \<notin> set (snd (run_repo c cfg work_dir)))
         \<and> (\<forall>b. EvCreatePr b \<notin> set (snd (run_repo c cfg work_dir)))"
proof -
  have "run_repo c cfg work_dir =
           (Inr (Failed ''tests'' ''Tests failed after update''),
            [EvClone (url cfg), EvBuild (image_name_of (name cfg)), EvScan (image_name_of (name cfg)),
             EvSaveReport (name cfg @ ''_trivy_report.json''), EvCreateBranch (branch_name_of hm),
             EvUpdateDependencies, EvSaveSummary (name cfg @ ''_security_summary.md''), EvRunTests])"
    using assms unfolding run_repo_def by (simp add: Let_def)
  then show ?thesis by simp
qed

theorem failing_tests_stop_the_run_witness:
  "run_repo sample_collaborators sample_config ''.'' =
     (Inr (Failed ''tests'' ''Tests failed after update''),
      [EvClone ''https://github.com/owner/repo.git'', EvBuild ''repo:security-scan'',
       EvScan ''repo:security-scan'', EvSaveReport ''repo_trivy_report.json'',
       EvCreateBranch ''security/fix-vulns-1'', EvUpdateDependencies,
       EvSaveSummary ''repo_security_summary.md'', EvRunTests])"
  using failing_tests_stop_the_run [of sample_collaborators sample_config "''.''" sample_repo
      sample_report "[fixing ''requests'' ''2.31.0'']" "[''requests'']"
      "[''requirements.txt'' \<mapsto> Utf8 (''requests>=2.31.0'' @ [CHR 0x0A])]"]
    sample_high_medium sample_update_dependencies
  by (simp add: sample_defs runner_defs truthy_def str_nat.simps)

text \<open>
  C10. When the run gets to the publication (every step before it succeeds) and
  \<open>create_pr\<close> returns a value, the outcome is the failure that names the step
  \<open>pr_creation\<close> exactly when that value is the string \<open>failed\<close>; any other value
  gives the success outcome that carries the value as it is. Without a token the value
  is \<open>skipped\<close>; with a token, when the remote answers 422 with the text that a pull
  request already exists and the lookup of the existing request raises, does not answer
  200 or lists none, the value is \<open>exists\<close>.
\<close>

theorem publication_outcome:
  assumes "clone_repo c (url cfg) work_dir = Inr repo_path"
    and "build_image c repo_path (image_name_of (name cfg))"
    and "scan_image c (image_name_of (name cfg)) = Some report"
    and "report_truthy report"
    and "high_medium (parse_trivy_report report) = hm" and "hm \<noteq> []"
    and "create_branch c repo_path (branch_name_of hm) = None"
    and "update_dependencies (updater_tools c) repo_path hm = (Inr updated_packages, repo')"
    and "updated_packages \<noteq> []"
    and "run_tests (shell c) repo' (test_command cfg)"
    and "commit_changes c repo' ''Security: Update dependencies to fix vulnerabilities'' = None"
    and "push_changes c repo' (branch_name_of hm) = None"
    and pr: "create_pr c (url cfg) (branch_name_of hm) (pr_title_of (name cfg)) (pr_body_of updated_packages)
           = Inr pr_url"
  shows "(fst (run_repo c cfg work_dir) = Inr (Failed ''pr_creation'' ''PR creation failed'')
            \<longleftrightarrow> pr_url = Some ''failed'')
       \<and> (pr_url \<noteq> Some ''failed'' \<longrightarrow>
            fst (run_repo c cfg work_dir) = Inr (PrCreated pr_url) \<and> status (PrCreated pr_url) = ''success'')
       \<and> (\<not> truthy (token c) \<longrightarrow> pr_url = Some ''skipped'')
       \<and> (truthy (token c) \<and> 2 \<le> length (url_parts (url cfg))
            \<and> status_code (http_post c (api_url_of (url_parts (url cfg))) (pr_title_of (name cfg))
                  (pr_body_of updated_packages) (branch_name_of hm)) = 422
            \<and> is_substring ''A pull request already exists''
                 (resp_text (http_post c (api_url_of (url_parts (url cfg))) (pr_title_of (name cfg))
                    (pr_body_of updated_packages) (branch_name_of hm)))
            \<and> (case http_get c (query_url_of (url_parts (url cfg)) (branch_name_of hm)) of
                  Inl e \<Rightarrow> True
                | Inr (code, pulls) \<Rightarrow> code \<noteq> 200 \<or> pulls = [])
            \<longrightarrow> pr_url = Some ''exists'')"
proof -
  have run: "fst (run_repo c cfg work_dir) =
               Inr (if pr_url = Some ''failed'' then Failed ''pr_creation'' ''PR creation failed''
                    else PrCreated pr_url)"
    using assms unfolding run_repo_def by (simp add: Let_def)
  have skipped: "\<not> truthy (token c) \<Longrightarrow> pr_url = Some ''skipped''"
    using pr by (simp add: create_pr_def)
  have exists: "pr_url = Some ''exists''"
    if "truthy (token c)" and "2 \<le> length (url_parts (url cfg))"
      and "status_code (http_post c (api_url_of (url_parts (url cfg))) (pr_title_of (name cfg))
                  (pr_body_of updated_packages) (branch_name_of hm)) = 422"
      and "is_substring ''A pull request already exists''
                 (resp_text (http_post c (api_url_of (url_parts (url cfg))) (pr_title_of (name cfg))
                    (pr_body_of updated_packages) (branch_name_of hm)))"
      and "case http_get c (query_url_of (url_parts (url cfg)) (branch_name_of hm)) of
                  Inl e \<Rightarrow> True
                | Inr (code, pulls) \<Rightarrow> code \<noteq> 200 \<or> pulls = []"
    using pr that by (auto simp: create_pr_def Let_def split: sum.splits prod.splits if_splits)
  show ?thesis
    using run skipped exists by (simp add: status_def)
qed

lemma sample_url_parts:
  "url_parts ''https://github.com/owner/repo.git'' = [''https:'', [], ''github.com'', ''owner'', ''repo'']"
  by (simp add: url_parts_def)

theorem publication_outcome_witness:
  "fst (run_repo passing_collaborators sample_config ''.'') = Inr (PrCreated (Some ''skipped''))
   \<and> fst (run_repo token_collaborators sample_config ''.'') = Inr (PrCreated (Some ''exists''))
   \<and> fst (run_repo rejected_collaborators sample_config ''.'')
       = Inr (Failed ''pr_creation'' ''PR creation failed'')"
proof -
  let ?repo' = "[''requirements.txt'' \<mapsto> Utf8 (''requests>=2.31.0'' @ [CHR 0x0A])]"
  let ?hm = "[fixing ''requests'' ''2.31.0'']"
  have pr1: "create_pr passing_collaborators (url sample_config) (branch_name_of ?hm)
              (pr_title_of (name sample_config)) (pr_body_of [''requests'']) = Inr (Some ''skipped'')"
    by (simp add: create_pr_def sample_defs truthy_def)
  have pr2: "create_pr token_collaborators (url sample_config) (branch_name_of ?hm)
              (pr_title_of (name sample_config)) (pr_body_of [''requests'']) = Inr (Some ''exists'')"
    by (simp add: create_pr_def sample_defs truthy_def sample_url_parts)
  have a: "fst (run_repo passing_collaborators sample_config ''.'') = Inr (PrCreated (Some ''skipped''))"
    using publication_outcome [of passing_collaborators sample_config "''.''" sample_repo sample_report
        ?hm "[''requests'']" ?repo' "Some ''skipped''"]
      sample_high_medium sample_update_dependencies pr1
    by (simp add: sample_defs runner_defs truthy_def)
  have b: "fst (run_repo token_collaborators sample_config ''.'') = Inr (PrCreated (Some ''exists''))"
    using publication_outcome [of token_collaborators sample_config "''.''" sample_repo sample_report
        ?hm "[''requests'']" ?repo' "Some ''exists''"]
      sample_high_medium sample_update_dependencies pr2
    by (simp add: sample_defs runner_defs truthy_def)
  have pr3: "create_pr rejected_collaborators (url sample_config) (branch_name_of ?hm)
              (pr_title_of (name sample_config)) (pr_body_of [''requests'']) = Inr (Some ''failed'')"
    by (simp add: create_pr_def sample_defs truthy_def sample_url_parts)
  have c: "fst (run_repo rejected_collaborators sample_config ''.'')
             = Inr (Failed ''pr_creation'' ''PR creation failed'')"
    using publication_outcome [of rejected_collaborators sample_config "''.''" sample_repo sample_report
        ?hm "[''requests'']" ?repo' "Some ''failed''"]
      sample_high_medium sample_update_dependencies pr3
    by (simp add: sample_defs runner_defs truthy_def)
  show ?thesis using a b c by simp
qed

subsection \<open>The tag-structured updater\<close>

lemma strip_prefix_append_tag:
  assumes "no_tag_start p"
  shows "strip_prefix p (s @ CHR ''<'' # CHR ''a'' # t)
           = map_option (\<lambda>r. r @ CHR ''<'' # CHR ''a'' # t) (strip_prefix p s)"
  using assms
proof (induction p s rule: strip_prefix.induct)
  case (1 s)
  then show ?case by simp
next
  case (2 p ps)
  then show ?case by (cases ps) auto
next
  case (3 p ps c cs)
  then show ?case by (cases ps) auto
qed

lemma strip_prefix_append_tag':
  assumes "no_tag_start (tl p)" and "s \<noteq> []"
  shows "strip_prefix p (s @ CHR ''<'' # CHR ''a'' # t)
           = map_option (\<lambda>r. r @ CHR ''<'' # CHR ''a'' # t) (strip_prefix p s)"
proof (cases p)
  case Nil
  then show ?thesis by simp
next
  case (Cons x ps)
  obtain c cs where s: "s = c # cs" using assms(2) by (cases s) auto
  show ?thesis using assms(1) strip_prefix_append_tag [of ps cs t] by (simp add: Cons s)
qed

lemma no_tag_start_append: "CHR ''<'' \<notin> set p \<Longrightarrow> no_tag_start (p @ q) = no_tag_start q"
proof (induction p)
  case Nil
  show ?case by simp
next
  case (Cons c p)
  then have ih: "no_tag_start (p @ q) = no_tag_start q" and c: "c \<noteq> CHR ''<''" by auto
  show ?case
  proof (cases "p @ q")
    case Nil
    then show ?thesis using c by simp
  next
    case (Cons d r)
    have "no_tag_start (c # d # r) = no_tag_start (d # r)" using c by simp
    then show ?thesis using ih Cons by simp
  qed
qed

lemma artifact_tag_no_tag_start:
  assumes "CHR ''<'' \<notin> set a"
  shows "no_tag_start (tl (''<artifactId>'' @ a @ ''</artifactId>''))"
proof -
  have "no_tag_start ((''artifactId>'' @ a) @ ''</artifactId>'') = no_tag_start ''</artifactId>''"
    by (rule no_tag_start_append) (use assms in simp)
  then have "no_tag_start ((''artifactId>'' @ a) @ ''</artifactId>'')" by simp
  moreover have "tl (''<artifactId>'' @ a @ ''</artifactId>'') = (''artifactId>'' @ a) @ ''</artifactId>''"
    by simp
  ultimately show ?thesis by (simp only:)
qed

lemma pom_match_append:
  assumes "s \<noteq> []" and "CHR ''<'' \<notin> set a"
  shows "pom_match a (s @ CHR ''<'' # CHR ''a'' # t)
           = map_option (\<lambda>(g1, old, rest). (g1, old, rest @ CHR ''<'' # CHR ''a'' # t))
               (pom_match a s)"
proof -
  define t0 where "t0 = CHR ''<'' # CHR ''a'' # t"
  define tag where "tag = ''<artifactId>'' @ a @ ''</artifactId>''"
  have H: "no_tag_start (tl tag)"
    unfolding tag_def by (rule artifact_tag_no_tag_start [OF assms(2)])
  have h: "strip_prefix tag (s @ t0) = map_option (\<lambda>r. r @ t0) (strip_prefix tag s)"
    unfolding t0_def by (rule strip_prefix_append_tag' [OF H assms(1)])
  have v: "strip_prefix ''<version>'' (r @ t0) = map_option (\<lambda>r. r @ t0) (strip_prefix ''<version>'' r)" for r
    unfolding t0_def by (rule strip_prefix_append_tag) simp
  have w: "strip_prefix ''</version>'' (r @ t0) = map_option (\<lambda>r. r @ t0) (strip_prefix ''</version>'' r)" for r
    unfolding t0_def by (rule strip_prefix_append_tag) simp
  have d1: "dropWhile isspace (r @ t0) = dropWhile isspace r @ t0" for r
    unfolding t0_def by (rule dropWhile_append_stop) (simp add: isspace_def)
  have k1: "takeWhile isspace (r @ t0) = takeWhile isspace r" for r
    unfolding t0_def by (rule takeWhile_append_stop) (simp add: isspace_def)
  have d2: "dropWhile (\<lambda>c. c \<noteq> CHR ''<'') (r @ t0) = dropWhile (\<lambda>c. c \<noteq> CHR ''<'') r @ t0" for r
    unfolding t0_def by (rule dropWhile_append_stop) simp
  have k2: "takeWhile (\<lambda>c. c \<noteq> CHR ''<'') (r @ t0) = takeWhile (\<lambda>c. c \<noteq> CHR ''<'') r" for r
    unfolding t0_def by (rule takeWhile_append_stop) simp
  have "pom_match a (s @ t0)
           = map_option (\<lambda>(g1, old, rest). (g1, old, rest @ t0)) (pom_match a s)"
    unfolding pom_match_def tag_def [symmetric] h
    by (cases "strip_prefix tag s")
       (simp_all add: d1 k1 v d2 k2 w Let_def split: option.splits)
  then show ?thesis by (simp add: t0_def)
qed


lemma pom_match_decomp:
  assumes "pom_match a s = Some (g1, old, rest)"
  shows "\<exists>ws. list_all isspace ws
            \<and> g1 = ''<artifactId>'' @ a @ ''</artifactId>'' @ ws @ ''<version>''
            \<and> s = g1 @ old @ ''</version>'' @ rest \<and> old \<noteq> [] \<and> CHR ''<'' \<notin> set old"
proof -
  from assms obtain r1 r2 where
    r1: "strip_prefix (''<artifactId>'' @ a @ ''</artifactId>'') s = Some r1" and
    r2: "strip_prefix ''<version>'' (dropWhile isspace r1) = Some r2" and
    old: "old = takeWhile (\<lambda>c. c \<noteq> CHR ''<'') r2" "old \<noteq> []" and
    r3: "strip_prefix ''</version>'' (dropWhile (\<lambda>c. c \<noteq> CHR ''<'') r2) = Some rest" and
    g1: "g1 = ''<artifactId>'' @ a @ ''</artifactId>'' @ takeWhile isspace r1 @ ''<version>''"
    unfolding pom_match_def by (auto simp: Let_def split: option.splits if_splits)
  have s: "s = (''<artifactId>'' @ a @ ''</artifactId>'') @ r1"
    using r1 by (simp only: strip_prefix_Some_iff)
  have "r1 = takeWhile isspace r1 @ dropWhile isspace r1" by simp
  also have "dropWhile isspace r1 = ''<version>'' @ r2"
    using r2 by (simp only: strip_prefix_Some_iff)
  also have "r2 = old @ dropWhile (\<lambda>c. c \<noteq> CHR ''<'') r2" by (simp add: old)
  also have "dropWhile (\<lambda>c. c \<noteq> CHR ''<'') r2 = ''</version>'' @ rest"
    using r3 by (simp only: strip_prefix_Some_iff)
  finally have r1': "r1 = takeWhile isspace r1 @ ''<version>'' @ old @ ''</version>'' @ rest" .
  have ws: "list_all isspace (takeWhile isspace r1)"
    by (simp add: list_all_iff) (meson set_takeWhileD)
  have no: "CHR ''<'' \<notin> set old"
    unfolding old by (auto dest: set_takeWhileD)
  have "s = g1 @ old @ ''</version>'' @ rest"
    using s r1' unfolding g1 by (metis append.assoc)
  then show ?thesis using ws g1 old(2) no by blast
qed

lemma takeWhile_until_tag:
  "CHR ''<'' \<notin> set v \<Longrightarrow> takeWhile (\<lambda>c. c \<noteq> CHR ''<'') (v @ CHR ''<'' # r) = v"
  by (induction v) auto

lemma dropWhile_until_tag:
  "CHR ''<'' \<notin> set v \<Longrightarrow> dropWhile (\<lambda>c. c \<noteq> CHR ''<'') (v @ CHR ''<'' # r) = CHR ''<'' # r"
  by (induction v) auto

lemma pom_match_at_tag:
  assumes ws: "list_all isspace ws" and old: "old \<noteq> []" "CHR ''<'' \<notin> set old"
  shows "pom_match a
           (''<artifactId>'' @ a @ ''</artifactId>'' @ ws @ ''<version>'' @ old @ ''</version>'' @ post)
         = Some (''<artifactId>'' @ a @ ''</artifactId>'' @ ws @ ''<version>'', old, post)"
proof -
  let ?r2 = "old @ ''</version>'' @ post"
  let ?r1 = "ws @ ''<version>'' @ ?r2"
  have sp: "strip_prefix (''<artifactId>'' @ a @ ''</artifactId>'')
              (''<artifactId>'' @ a @ ''</artifactId>'' @ ?r1) = Some ?r1"
    using strip_prefix_self [of "''<artifactId>'' @ a @ ''</artifactId>''" ?r1] by simp
  have all: "\<And>x. x \<in> set ws \<Longrightarrow> isspace x" using ws by (simp add: list_all_iff)
  have "dropWhile isspace ?r1 = dropWhile isspace (''<version>'' @ ?r2)"
    using all by (rule dropWhile_append2)
  then have dw: "dropWhile isspace ?r1 = ''<version>'' @ ?r2"
    by (simp add: isspace_def)
  have "takeWhile isspace ?r1 = ws @ takeWhile isspace (''<version>'' @ ?r2)"
    using all by (rule takeWhile_append2)
  then have tw: "takeWhile isspace ?r1 = ws"
    by (simp add: isspace_def)
  have sv: "strip_prefix ''<version>'' (''<version>'' @ ?r2) = Some ?r2"
    by (rule strip_prefix_self)
  have "?r2 = old @ CHR ''<'' # (''/version>'' @ post)" by simp
  then have t2: "takeWhile (\<lambda>c. c \<noteq> CHR ''<'') ?r2 = old"
    and d2: "dropWhile (\<lambda>c. c \<noteq> CHR ''<'') ?r2 = ''</version>'' @ post"
    using takeWhile_until_tag [OF old(2), of "''/version>'' @ post"]
      dropWhile_until_tag [OF old(2), of "''/version>'' @ post"] by simp_all
  have se: "strip_prefix ''</version>'' (''</version>'' @ post) = Some post"
    by (rule strip_prefix_self)
  show ?thesis
    unfolding pom_match_def sp option.case dw sv t2 d2 se tw Let_def
    using old(1) by simp
qed

lemma pom_sub_match:
  assumes "pom_match a s = Some (g1, old, rest)"
  shows "pom_sub a ver s = g1 @ ver @ ''</version>'' @ pom_sub a ver rest"
proof (cases s)
  case Nil
  then show ?thesis using assms by (simp add: pom_match_def)
next
  case (Cons c cs)
  then show ?thesis using assms by simp
qed

lemma pom_sub_append:
  assumes "CHR ''<'' \<notin> set a"
  shows "pom_sub a v (pre @ CHR ''<'' # CHR ''a'' # t)
     = pom_sub a v pre @ pom_sub a v (CHR ''<'' # CHR ''a'' # t)"
  using assms
proof (induction a v pre rule: pom_sub.induct)
  case (1 a ver)
  show ?case by simp
next
  case (2 a ver c cs)
  show ?case
  proof (cases "pom_match a (c # cs)")
    case None
    then have "pom_match a ((c # cs) @ CHR ''<'' # CHR ''a'' # t) = None"
      using pom_match_append [of "c # cs" a t] 2(3) by simp
    then show ?thesis using None 2(1) 2(3) by simp
  next
    case (Some m)
    obtain g1 old rest where m: "m = (g1, old, rest)" by (cases m) auto
    have "pom_match a ((c # cs) @ CHR ''<'' # CHR ''a'' # t)
            = Some (g1, old, rest @ CHR ''<'' # CHR ''a'' # t)"
      using Some m pom_match_append [of "c # cs" a t] 2(3) by simp
    then show ?thesis using Some m 2(2) [OF Some, of g1 "(old, rest)" old rest] 2(3) by simp
  qed
qed

lemma version_text_cancel:
  assumes "CHR ''<'' \<notin> set v" and "CHR ''<'' \<notin> set w"
    and "v @ ''</version>'' @ A = w @ ''</version>'' @ B"
  shows "v = w \<and> A = B"
proof -
  have "takeWhile (\<lambda>c. c \<noteq> CHR ''<'') (v @ ''</version>'' @ A) = v"
    using takeWhile_until_tag [OF assms(1)] by simp
  moreover have "takeWhile (\<lambda>c. c \<noteq> CHR ''<'') (w @ ''</version>'' @ B) = w"
    using takeWhile_until_tag [OF assms(2)] by simp
  ultimately have "v = w" using assms(3) by simp
  then show ?thesis using assms(3) by simp
qed

lemma pom_sub_changes:
  assumes a: "CHR ''<'' \<notin> set a" and v: "CHR ''<'' \<notin> set v" "v \<noteq> old0"
    and m0: "pom_match a (CHR ''<'' # CHR ''a'' # t) = Some (g0, old0, post)"
  shows "pom_sub a v (pre @ CHR ''<'' # CHR ''a'' # t) \<noteq> pre @ CHR ''<'' # CHR ''a'' # t"
  using assms
proof (induction a v pre rule: pom_sub.induct)
  case (1 a ver)
  from pom_match_decomp [OF 1(4)]
  have t: "CHR ''<'' # CHR ''a'' # t = g0 @ old0 @ ''</version>'' @ post"
    and old: "CHR ''<'' \<notin> set old0" by auto
  show ?case
  proof
    assume "pom_sub a ver ([] @ CHR ''<'' # CHR ''a'' # t) = [] @ CHR ''<'' # CHR ''a'' # t"
    then have "g0 @ ver @ ''</version>'' @ pom_sub a ver post = g0 @ old0 @ ''</version>'' @ post"
      using pom_sub_match [OF 1(4), of ver] t by simp
    then have "ver @ ''</version>'' @ pom_sub a ver post = old0 @ ''</version>'' @ post"
      by simp
    from version_text_cancel [OF 1(2) old this] show False
      using 1(3) by simp
  qed
next
  case (2 a ver c cs)
  let ?t = "CHR ''<'' # CHR ''a'' # t"
  show ?case
  proof (cases "pom_match a (c # cs)")
    case None
    then have "pom_match a ((c # cs) @ ?t) = None"
      using pom_match_append [of "c # cs" a t] 2(3) by simp
    then show ?thesis using None 2(1) 2(3-6) by simp
  next
    case (Some m)
    obtain g1 old rest where m: "m = (g1, old, rest)" by (cases m) auto
    have big: "pom_match a ((c # cs) @ ?t) = Some (g1, old, rest @ ?t)"
      using Some m pom_match_append [of "c # cs" a t] 2(3) by simp
    from pom_match_decomp [OF Some [unfolded m]]
    have cs: "c # cs = g1 @ old @ ''</version>'' @ rest" and old: "CHR ''<'' \<notin> set old"
      by auto
    have ih: "pom_sub a ver (rest @ ?t) \<noteq> rest @ ?t"
      using 2(2) [OF Some, of g1 "(old, rest)" old rest] m 2(3-6) by simp
    show ?thesis
    proof
      assume "pom_sub a ver ((c # cs) @ ?t) = (c # cs) @ ?t"
      then have "g1 @ ver @ ''</version>'' @ pom_sub a ver (rest @ ?t) = (c # cs) @ ?t"
        using pom_sub_match [OF big, of ver] by simp
      also have "\<dots> = g1 @ old @ ''</version>'' @ rest @ ?t"
        by (simp only: cs append.assoc)
      finally have "ver @ ''</version>'' @ pom_sub a ver (rest @ ?t)
                      = old @ ''</version>'' @ rest @ ?t"
        by simp
      from version_text_cancel [OF 2(4) old this]
      have "pom_sub a ver (rest @ ?t) = rest @ ?t" by (rule conjunct2)
      with ih show False by (rule notE)
    qed
  qed
qed

lemma only_versions_differ_pom_sub: "only_versions_differ a ver s (pom_sub a ver s)"
proof (induction a ver s rule: pom_sub.induct)
  case (1 a ver)
  show ?case by (simp add: same_end)
next
  case (2 a ver c cs)
  show ?case
  proof (cases "pom_match a (c # cs)")
    case None
    then show ?thesis using 2(1) by (simp add: same_char)
  next
    case (Some m)
    obtain g1 old rest where m: "m = (g1, old, rest)" by (cases m) auto
    from pom_match_decomp [OF Some [unfolded m]] obtain ws where
      ws: "list_all isspace ws" and
      g1: "g1 = ''<artifactId>'' @ a @ ''</artifactId>'' @ ws @ ''<version>''" and
      cs: "c # cs = g1 @ old @ ''</version>'' @ rest" and
      old: "old \<noteq> []" "CHR ''<'' \<notin> set old"
      by auto
    have ih: "only_versions_differ a ver rest (pom_sub a ver rest)"
      using 2(2) [OF Some, of g1 "(old, rest)" old rest] m by simp
    have "only_versions_differ a ver
            (''<artifactId>'' @ a @ ''</artifactId>'' @ ws @ ''<version>'' @ old @ ''</version>'' @ rest)
            (''<artifactId>'' @ a @ ''</artifactId>'' @ ws @ ''<version>'' @ ver @ ''</version>''
               @ pom_sub a ver rest)"
      by (rule version_text [OF ih ws old])
    moreover have "c # cs = ''<artifactId>'' @ a @ ''</artifactId>'' @ ws @ ''<version>'' @ old @ ''</version>'' @ rest"
      using cs g1 by simp
    moreover have "pom_sub a ver (c # cs) = ''<artifactId>'' @ a @ ''</artifactId>'' @ ws @ ''<version>'' @ ver @ ''</version>''
               @ pom_sub a ver rest"
      using Some m g1 by simp
    ultimately show ?thesis by simp
  qed
qed

lemma pom_search_append: "pom_search a s \<Longrightarrow> pom_search a (pre @ s)"
proof (induction pre)
  case Nil
  then show ?case by simp
next
  case (Cons c pre)
  then show ?case by simp
qed

lemma pom_sub_no_match: "\<not> pom_search a s \<Longrightarrow> pom_sub a ver s = s"
proof (induction a ver s rule: pom_sub.induct)
  case (1 a ver)
  show ?case by simp
next
  case (2 a ver c cs)
  have none: "pom_match a (c # cs) = None"
    using 2(3) by (cases "pom_match a (c # cs)") auto
  have rest: "\<not> pom_search a cs" using 2(3) by simp
  show ?case using none 2(1) [OF none rest] by simp
qed

lemma maven_no_match:
  "list_all (\<lambda>(p, v). \<not> pom_search (artifact_id_of p) content) updates
   \<Longrightarrow> foldl maven_step (Inr (content, pkgs)) updates = Inr (content, pkgs)"
  by (induction updates) auto

lemma single_finding_updates:
  assumes "PkgName f = Some pkg" and "FixedVersion f = Some fixed" and "pkg \<noteq> []" and "fixed \<noteq> []"
  shows "plain_updates [f] = [(pkg, fixed)]"
  using assms by (simp add: plain_updates_def plain_updates_step_def truthy_def)

lemma artifact_id_of_namespaced:
  assumes "pkg = a \<and> CHR '':'' \<notin> set a \<or> pkg = g @ '':'' @ a \<and> CHR '':'' \<notin> set g"
  shows "artifact_id_of pkg = a"
  using assms
proof
  assume "pkg = a \<and> CHR '':'' \<notin> set a"
  then show ?thesis by (simp add: artifact_id_of_def)
next
  assume g: "pkg = g @ '':'' @ a \<and> CHR '':'' \<notin> set g"
  then have "dropWhile (\<lambda>c. c \<noteq> CHR '':'') pkg = dropWhile (\<lambda>c. c \<noteq> CHR '':'') ('':'' @ a)"
    using dropWhile_past [of "CHR '':''" g "'':'' @ a"] by simp
  then show ?thesis using g by (simp add: artifact_id_of_def)
qed


lemma pom_rewrite_general:
  assumes pom: "repo ''pom.xml'' = Some (Utf8 raw)"
    and content: "universal_newlines raw
        = pre @ ''<artifactId>'' @ a @ ''</artifactId>'' @ ws @ ''<version>'' @ old @ ''</version>'' @ post"
    and ws: "list_all isspace ws" and old: "old \<noteq> []" "CHR ''<'' \<notin> set old"
    and a: "CHR ''<'' \<notin> set a"
    and f: "PkgName f = Some pkg" "FixedVersion f = Some ver"
    and pkg: "pkg = a \<and> a \<noteq> [] \<and> CHR '':'' \<notin> set a \<or> pkg = g @ '':'' @ a \<and> CHR '':'' \<notin> set g"
    and ver: "ver \<noteq> []" "ver \<noteq> old" "CHR ''<'' \<notin> set ver" "CHR 0x5C \<notin> set ver"
  shows "MavenUpdater_update repo [f]
           = (Inr [pkg],
              repo(''pom.xml'' \<mapsto> Utf8 (pom_sub a ver pre
                 @ ''<artifactId>'' @ a @ ''</artifactId>'' @ ws @ ''<version>'' @ ver @ ''</version>''
                 @ pom_sub a ver post)))"
proof -
  define t where
    "t = ''rtifactId>'' @ a @ ''</artifactId>'' @ ws @ ''<version>'' @ old @ ''</version>'' @ post"
  define g1 where "g1 = ''<artifactId>'' @ a @ ''</artifactId>'' @ ws @ ''<version>''"
  define c where "c = pre @ CHR ''<'' # CHR ''a'' # t"
  have c: "universal_newlines raw = c"
    using content by (simp add: c_def t_def)
  have m: "pom_match a (CHR ''<'' # CHR ''a'' # t) = Some (g1, old, post)"
    using pom_match_at_tag [OF ws old, of a post] by (simp add: t_def g1_def)
  have ups: "plain_updates [f] = [(pkg, ver)]"
    using single_finding_updates [OF f _ ver(1)] pkg by auto
  have art: "artifact_id_of pkg = a"
    by (rule artifact_id_of_namespaced [of pkg a g]) (use pkg in auto)
  have "pom_search a (CHR ''<'' # CHR ''a'' # t)"
    using m by simp
  then have found: "pom_search a c"
    unfolding c_def by (rule pom_search_append)
  have sub: "pom_sub a ver c = pom_sub a ver pre @ g1 @ ver @ ''</version>'' @ pom_sub a ver post"
    unfolding c_def using pom_sub_append [OF a, of ver pre t] pom_sub_match [OF m, of ver]
    by (simp only:)
  have changed: "pom_sub a ver c \<noteq> c"
    unfolding c_def by (rule pom_sub_changes [OF a ver(3) ver(2) m])
  have step: "foldl maven_step (Inr (c, [])) [(pkg, ver)] = Inr (pom_sub a ver c, [pkg])"
    using found art ver(4) by (simp add: template_ok_def)
  have "MavenUpdater_update repo [f] = (Inr [pkg], repo(''pom.xml'' \<mapsto> Utf8 (pom_sub a ver c)))"
    unfolding MavenUpdater_update_def
    using pom ups step changed c by (simp add: read_text_def del: foldl.simps)
  then show ?thesis by (simp add: sub g1_def)
qed

lemma pom_no_match_noop:
  assumes "repo ''pom.xml'' = Some (Utf8 raw)"
    and "list_all (\<lambda>(p, v). \<not> pom_search (artifact_id_of p) (universal_newlines raw))
           (plain_updates vulns)"
  shows "MavenUpdater_update repo vulns = (Inr [], repo)"
  using assms maven_no_match [of "universal_newlines raw" "plain_updates vulns" "[]"]
  by (simp add: MavenUpdater_update_def read_text_def Let_def)

text \<open>
  C9, as amended. The updater reads pom.xml with universal newlines, so the text it
  searches and writes back is \<open>universal_newlines raw\<close>, which is \<open>raw\<close> when the
  file holds no carriage return. Let that text hold, anywhere, the tag of an artifact
  \<open>a\<close> followed, after white space only, by a version tag whose text is \<open>old\<close>, and
  let the one finding name \<open>a\<close>, or \<open>a\<close> behind any namespace and a colon, with a
  fixed version \<open>ver\<close> other than \<open>old\<close> (no \<open><\<close> in \<open>a\<close> or \<open>ver\<close>, no
  backslash in \<open>ver\<close>). Then the updater reports the package as the finding names
  it and writes the text in which that version tag reads \<open>ver\<close>; what stands before
  and after the tag pair is rewritten on its own, so for a file without carriage
  return whose other parts the pattern does not match, the file written is the file
  read with the text of that one version tag replaced. For every artifact, version and
  text, the substitution changes nothing but the text of version tags that follow the
  artifact's tag. A package whose pattern matches nowhere leaves the loop's state as it
  is, and when that holds for every pending package the updater returns the empty list,
  raises nothing and leaves the working tree as it is.
\<close>

theorem pom_version_rewrite:
  "(repo ''pom.xml'' = Some (Utf8 raw)
      \<and> universal_newlines raw
          = pre @ ''<artifactId>'' @ a @ ''</artifactId>'' @ ws @ ''<version>'' @ old @ ''</version>'' @ post
      \<and> list_all isspace ws \<and> old \<noteq> [] \<and> CHR ''<'' \<notin> set old \<and> CHR ''<'' \<notin> set a
      \<and> PkgName f = Some pkg \<and> FixedVersion f = Some ver
      \<and> (pkg = a \<and> a \<noteq> [] \<and> CHR '':'' \<notin> set a \<or> pkg = g @ '':'' @ a \<and> CHR '':'' \<notin> set g)
      \<and> ver \<noteq> [] \<and> ver \<noteq> old \<and> CHR ''<'' \<notin> set ver \<and> CHR 0x5C \<notin> set ver
    \<longrightarrow> MavenUpdater_update repo [f]
          = (Inr [pkg],
             repo(''pom.xml'' \<mapsto> Utf8 (pom_sub a ver pre
                @ ''<artifactId>'' @ a @ ''</artifactId>'' @ ws @ ''<version>'' @ ver @ ''</version>''
                @ pom_sub a ver post)))
        \<and> (CHR 0x0D \<notin> set raw \<and> \<not> pom_search a pre \<and> \<not> pom_search a post
            \<longrightarrow> raw = pre @ ''<artifactId>'' @ a @ ''</artifactId>'' @ ws @ ''<version>'' @ old
                        @ ''</version>'' @ post
              \<and> snd (MavenUpdater_update repo [f]) ''pom.xml''
                  = Some (Utf8 (pre @ ''<artifactId>'' @ a @ ''</artifactId>'' @ ws @ ''<version>'' @ ver
                        @ ''</version>'' @ post))))
   \<and> (\<not> pom_search b s \<longrightarrow> pom_sub b v s = s)
   \<and> only_versions_differ b v s (pom_sub b v s)
   \<and> (\<not> pom_search (artifact_id_of p) content
        \<longrightarrow> maven_step (Inr (content, pkgs)) (p, v) = Inr (content, pkgs))
   \<and> (repo ''pom.xml'' = Some (Utf8 raw)
        \<and> list_all (\<lambda>(p, v). \<not> pom_search (artifact_id_of p) (universal_newlines raw))
            (plain_updates vulns)
        \<longrightarrow> MavenUpdater_update repo vulns = (Inr [], repo))"
proof -
  have one: "MavenUpdater_update repo [f]
          = (Inr [pkg],
             repo(''pom.xml'' \<mapsto> Utf8 (pom_sub a ver pre
                @ ''<artifactId>'' @ a @ ''</artifactId>'' @ ws @ ''<version>'' @ ver @ ''</version>''
                @ pom_sub a ver post)))
        \<and> (CHR 0x0D \<notin> set raw \<and> \<not> pom_search a pre \<and> \<not> pom_search a post
            \<longrightarrow> raw = pre @ ''<artifactId>'' @ a @ ''</artifactId>'' @ ws @ ''<version>'' @ old
                        @ ''</version>'' @ post
              \<and> snd (MavenUpdater_update repo [f]) ''pom.xml''
                  = Some (Utf8 (pre @ ''<artifactId>'' @ a @ ''</artifactId>'' @ ws @ ''<version>'' @ ver
                        @ ''</version>'' @ post)))"
    if h: "repo ''pom.xml'' = Some (Utf8 raw)
      \<and> universal_newlines raw
          = pre @ ''<artifactId>'' @ a @ ''</artifactId>'' @ ws @ ''<version>'' @ old @ ''</version>'' @ post
      \<and> list_all isspace ws \<and> old \<noteq> [] \<and> CHR ''<'' \<notin> set old \<and> CHR ''<'' \<notin> set a
      \<and> PkgName f = Some pkg \<and> FixedVersion f = Some ver
      \<and> (pkg = a \<and> a \<noteq> [] \<and> CHR '':'' \<notin> set a \<or> pkg = g @ '':'' @ a \<and> CHR '':'' \<notin> set g)
      \<and> ver \<noteq> [] \<and> ver \<noteq> old \<and> CHR ''<'' \<notin> set ver \<and> CHR 0x5C \<notin> set ver"
  proof -
    have run: "MavenUpdater_update repo [f]
          = (Inr [pkg],
             repo(''pom.xml'' \<mapsto> Utf8 (pom_sub a ver pre
                @ ''<artifactId>'' @ a @ ''</artifactId>'' @ ws @ ''<version>'' @ ver @ ''</version>''
                @ pom_sub a ver post)))"
      using h pom_rewrite_general [of repo raw pre a ws old post f pkg ver g] by simp
    have "raw = pre @ ''<artifactId>'' @ a @ ''</artifactId>'' @ ws @ ''<version>'' @ old
                        @ ''</version>'' @ post
          \<and> snd (MavenUpdater_update repo [f]) ''pom.xml''
                  = Some (Utf8 (pre @ ''<artifactId>'' @ a @ ''</artifactId>'' @ ws @ ''<version>'' @ ver
                        @ ''</version>'' @ post))"
      if k: "CHR 0x0D \<notin> set raw \<and> \<not> pom_search a pre \<and> \<not> pom_search a post"
    proof -
      have "universal_newlines raw = raw" using k by (simp add: universal_newlines_id)
      then have "raw = pre @ ''<artifactId>'' @ a @ ''</artifactId>'' @ ws @ ''<version>'' @ old
                        @ ''</version>'' @ post"
        using h by simp
      moreover have "pom_sub a ver pre = pre" "pom_sub a ver post = post"
        using k by (simp_all add: pom_sub_no_match)
      ultimately show ?thesis using run by simp
    qed
    then show ?thesis using run by blast
  qed
  have none: "\<not> pom_search b s \<longrightarrow> pom_sub b v s = s"
    by (simp add: pom_sub_no_match)
  have differ: "only_versions_differ b v s (pom_sub b v s)"
    by (rule only_versions_differ_pom_sub)
  have step: "\<not> pom_search (artifact_id_of p) content
        \<longrightarrow> maven_step (Inr (content, pkgs)) (p, v) = Inr (content, pkgs)"
    by simp
  have noop: "repo ''pom.xml'' = Some (Utf8 raw)
        \<and> list_all (\<lambda>(p, v). \<not> pom_search (artifact_id_of p) (universal_newlines raw))
            (plain_updates vulns)
        \<longrightarrow> MavenUpdater_update repo vulns = (Inr [], repo)"
    using pom_no_match_noop [of repo raw vulns] by simp
  show ?thesis
  proof (intro conjI)
    show "\<not> pom_search b s \<longrightarrow> pom_sub b v s = s" by (rule none)
    show "only_versions_differ b v s (pom_sub b v s)" by (rule differ)
    show "\<not> pom_search (artifact_id_of p) content
        \<longrightarrow> maven_step (Inr (content, pkgs)) (p, v) = Inr (content, pkgs)"
      by (rule step)
    show "repo ''pom.xml'' = Some (Utf8 raw)
        \<and> list_all (\<lambda>(p, v). \<not> pom_search (artifact_id_of p) (universal_newlines raw))
            (plain_updates vulns)
        \<longrightarrow> MavenUpdater_update repo vulns = (Inr [], repo)"
      by (rule noop)
  qed (rule impI [OF one])
qed

theorem pom_version_rewrite_witness:
  "MavenUpdater_update sample_pom [fixing ''com.x:jackson-databind'' ''2.12.0'']
     = (Inr [''com.x:jackson-databind''],
        [''pom.xml'' \<mapsto> Utf8 (''<dependency>''
           @ ''<artifactId>jackson-databind</artifactId><version>2.12.0</version>'' @ ''</dependency>'')])
   \<and> snd (MavenUpdater_update sample_pom [fixing ''jackson-databind'' ''2.12.0'']) ''pom.xml''
       = Some (Utf8 (''<dependency>''
           @ ''<artifactId>jackson-databind</artifactId><version>2.12.0</version>'' @ ''</dependency>''))
   \<and> MavenUpdater_update sample_pom [fixing ''log4j-core'' ''2.17.1''] = (Inr [], sample_pom)
   \<and> pom_sub ''log4j-core'' ''2.17.1'' ''<dependency>'' = ''<dependency>''
   \<and> maven_step (Inr (''<dependency>'', [])) (''log4j-core'', ''2.17.1'') = Inr (''<dependency>'', [])
   \<and> only_versions_differ ''jackson-databind'' ''2.12.0''
         ''<artifactId>jackson-databind</artifactId><version>2.10.0</version>''
         ''<artifactId>jackson-databind</artifactId><version>2.12.0</version>''"
proof -
  have a: "MavenUpdater_update sample_pom [fixing ''com.x:jackson-databind'' ''2.12.0'']
     = (Inr [''com.x:jackson-databind''],
        [''pom.xml'' \<mapsto> Utf8 (''<dependency>''
           @ ''<artifactId>jackson-databind</artifactId><version>2.12.0</version>'' @ ''</dependency>'')])"
    using pom_version_rewrite [of sample_pom
        "''<dependency><artifactId>jackson-databind</artifactId><version>2.10.0</version></dependency>''"
        "''<dependency>''" "''jackson-databind''" "[]" "''2.10.0''" "''</dependency>''"
        "fixing ''com.x:jackson-databind'' ''2.12.0''" "''com.x:jackson-databind''" "''2.12.0''"
        "''com.x''"]
    by (simp add: sample_pom_def fixing_def pom_match_def universal_newlines_def)
  have a2: "snd (MavenUpdater_update sample_pom [fixing ''jackson-databind'' ''2.12.0'']) ''pom.xml''
       = Some (Utf8 (''<dependency>''
           @ ''<artifactId>jackson-databind</artifactId><version>2.12.0</version>'' @ ''</dependency>''))"
    using pom_version_rewrite [of sample_pom
        "''<dependency><artifactId>jackson-databind</artifactId><version>2.10.0</version></dependency>''"
        "''<dependency>''" "''jackson-databind''" "[]" "''2.10.0''" "''</dependency>''"
        "fixing ''jackson-databind'' ''2.12.0''" "''jackson-databind''" "''2.12.0''"]
    by (simp add: sample_pom_def fixing_def pom_match_def universal_newlines_def)
  have b: "MavenUpdater_update sample_pom [fixing ''log4j-core'' ''2.17.1''] = (Inr [], sample_pom)"
    using pom_version_rewrite [of sample_pom
        "''<dependency><artifactId>jackson-databind</artifactId><version>2.10.0</version></dependency>''"
        _ _ _ _ _ _ _ _ _ _ _ _ _ _ _ "[fixing ''log4j-core'' ''2.17.1'']"]
    by (simp add: sample_pom_def updates_defs string_defs artifact_id_of_def pom_match_def
        universal_newlines_def)
  have c: "pom_sub ''log4j-core'' ''2.17.1'' ''<dependency>'' = ''<dependency>''"
    using pom_version_rewrite [of _ _ _ _ _ _ _ _ _ _ _ "''log4j-core''" "''<dependency>''" "''2.17.1''"]
    by (simp add: pom_match_def)
  have d: "maven_step (Inr (''<dependency>'', [])) (''log4j-core'', ''2.17.1'') = Inr (''<dependency>'', [])"
    using pom_version_rewrite [of _ _ _ _ _ _ _ _ _ _ _ _ _ "''2.17.1''" "''log4j-core''" "''<dependency>''" "[]"]
    by (simp add: artifact_id_of_def pom_match_def)
  have e: "only_versions_differ ''jackson-databind'' ''2.12.0''
         ''<artifactId>jackson-databind</artifactId><version>2.10.0</version>''
         ''<artifactId>jackson-databind</artifactId><version>2.12.0</version>''"
    using pom_version_rewrite [of _ _ _ _ _ _ _ _ _ _ _ "''jackson-databind''"
        "''<artifactId>jackson-databind</artifactId><version>2.10.0</version>''" "''2.12.0''"]
    by (simp add: pom_match_def isspace_def)
  show ?thesis using a a2 b c d e by simp
qed

text \<open>
  The claim as stated fails on a file with the line endings of Windows: the text before
  and after the tag pair is written back with line feeds in place of the carriage
  return and line feed it had.
\<close>

theorem crlf_pom_line_endings_rewritten:
  "MavenUpdater_update crlf_pom [fixing ''jackson-databind'' ''2.12.0'']
     = (Inr [''jackson-databind''],
        [''pom.xml'' \<mapsto> Utf8 (''<project>'' @ [CHR 0x0A]
           @ ''<artifactId>jackson-databind</artifactId><version>2.12.0</version>'' @ [CHR 0x0A]
           @ ''</project>'' @ [CHR 0x0A])])"
  by (simp add: MavenUpdater_update_def crlf_pom_def updates_defs string_defs read_text_def
      universal_newlines_def artifact_id_of_def pom_match_def template_ok_def)

subsection \<open>The pinned-list updater\<close>

lemma python_line_step_eq:
  "python_line_step U st line =
     st\<lparr>new_lines := new_lines st @ [rewritten U line],
        modified := modified st \<or> touched U line,
        updated_pkgs := updated_pkgs st @ line_pkgs U line\<rparr>"
  by (auto simp: python_line_step_def rewritten_def touched_def line_pkgs_def clean_of_def
      comment_of_def Let_def split: option.splits)

lemma python_loop_eq:
  "foldl (python_line_step U) st ls =
     st\<lparr>new_lines := new_lines st @ map (rewritten U) ls,
        modified := modified st \<or> list_ex (touched U) ls,
        updated_pkgs := updated_pkgs st @ concat (map (line_pkgs U) ls)\<rparr>"
proof (induction ls arbitrary: st)
  case Nil
  show ?case by simp
next
  case (Cons l ls)
  have "foldl (python_line_step U) st (l # ls)
          = foldl (python_line_step U) (python_line_step U st l) ls"
    by simp
  also have "\<dots> = (python_line_step U st l)
      \<lparr>new_lines := new_lines (python_line_step U st l) @ map (rewritten U) ls,
        modified := modified (python_line_step U st l) \<or> list_ex (touched U) ls,
        updated_pkgs := updated_pkgs (python_line_step U st l) @ concat (map (line_pkgs U) ls)\<rparr>"
    by (rule Cons)
  also have "\<dots> = st\<lparr>new_lines := new_lines st @ map (rewritten U) (l # ls),
        modified := modified st \<or> list_ex (touched U) (l # ls),
        updated_pkgs := updated_pkgs st @ concat (map (line_pkgs U) (l # ls))\<rparr>"
    by (simp add: python_line_step_eq)
  finally show ?case .
qed

lemma first_match_Nil: "first_match [] c = None"
  by (simp add: first_match_def)

lemma PythonUpdater_update_eq:
  assumes "repo ''requirements.txt'' = Some req_file"
    and "read_text_utf8_utf16 req_file = Inr content"
  shows "PythonUpdater_update repo vulns =
     (if list_ex (touched (python_updates vulns)) (splitlines content)
      then (Inr (concat (map (line_pkgs (python_updates vulns)) (splitlines content))),
            repo(''requirements.txt'' \<mapsto>
              Utf8 (join_with [CHR 0x0A] (map (rewritten (python_updates vulns)) (splitlines content))
                    @ [CHR 0x0A])))
      else (Inr [], repo))"
proof (cases "python_updates vulns = []")
  case True
  have "\<not> list_ex (touched []) (splitlines content)"
    by (simp add: list_ex_iff touched_def first_match_Nil)
  then show ?thesis using assms True by (simp add: PythonUpdater_update_def)
next
  case False
  then show ?thesis
    using assms by (simp add: PythonUpdater_update_def python_loop_eq loop_init_def Let_def)
qed


lemma untouched_unchanged:
  assumes "list_all (\<lambda>(pkg, ver). \<not> req_pattern_match pkg (strip (before_hash line))) U"
  shows "rewritten U line = line"
proof -
  have "first_match U (clean_of line) = None"
    using assms by (auto simp: first_match_def clean_of_def find_None_iff list_all_iff)
  then show ?thesis by (simp add: rewritten_def touched_def)
qed

lemma strip_keeps_core:
  assumes "\<not> isspace a" and "\<not> isspace b"
  shows "strip (a # s @ b # x) = a # s @ b # rev (dropWhile isspace (rev x))"
proof -
  have "dropWhile isspace (rev x @ b # rev s @ [a])
          = dropWhile isspace (rev x) @ b # rev s @ [a]"
    using assms(2) by (rule dropWhile_append_stop)
  then show ?thesis using assms(1) by (simp add: strip_def)
qed



lemma splitlines_from_free:
  assumes "\<forall>c\<in>set cur. \<not> is_linebreak c"
  shows "\<forall>l\<in>set (splitlines_from b cur s). \<forall>c\<in>set l. \<not> is_linebreak c"
  using assms
proof (induction s arbitrary: b cur)
  case Nil
  then show ?case by simp
next
  case (Cons x xs)
  show ?case
  proof (cases "b \<and> x = CHR 0x0A")
    case True
    then show ?thesis using Cons.IH [OF Cons.prems] by simp
  next
    case False
    show ?thesis
    proof (cases "is_linebreak x")
      case True
      have "\<forall>l\<in>set (splitlines_from (x = CHR 0x0D) [] xs). \<forall>c\<in>set l. \<not> is_linebreak c"
        by (rule Cons.IH) simp
      then show ?thesis using False True Cons.prems by auto
    next
      case nb: False
      have "\<forall>l\<in>set (splitlines_from False (x # cur) xs). \<forall>c\<in>set l. \<not> is_linebreak c"
        by (rule Cons.IH) (use nb Cons.prems in simp)
      then show ?thesis using False nb by auto
    qed
  qed
qed

lemma splitlines_free: "l \<in> set (splitlines s) \<Longrightarrow> c \<in> set l \<Longrightarrow> \<not> is_linebreak c"
  using splitlines_from_free [of "[]" False s] by (simp add: splitlines_def)


lemma first_match_in: "first_match U c = Some (p, v) \<Longrightarrow> (p, v) \<in> set U \<and> req_pattern_match p c"
  unfolding first_match_def by (induction U) (auto split: if_splits)

lemma after_hash_subset: "set (after_hash l) \<subseteq> set l"
proof
  fix x
  assume "x \<in> set (after_hash l)"
  then have "x \<in> set (tl (dropWhile (\<lambda>c. c \<noteq> CHR ''#'') l))"
    by (simp only: after_hash_def)
  then have "x \<in> set (dropWhile (\<lambda>c. c \<noteq> CHR ''#'') l)"
    by (cases "dropWhile (\<lambda>c. c \<noteq> CHR ''#'') l") simp_all
  then show "x \<in> set l"
    by (rule set_dropWhileD)
qed











text \<open>Invariants of the update set\<close>

lemma set_update_subset: "set (AList.update k v al) \<subseteq> insert (k, v) (set al)"
  by (induction al) auto

lemma set_strip_subset: "set (strip s) \<subseteq> set s"
proof
  fix x
  assume "x \<in> set (strip s)"
  then have "x \<in> set (dropWhile isspace (rev (dropWhile isspace s)))"
    by (simp add: strip_def)
  then have "x \<in> set (rev (dropWhile isspace s))" by (rule set_dropWhileD)
  then have "x \<in> set (dropWhile isspace s)" by simp
  then show "x \<in> set s" by (rule set_dropWhileD)
qed

lemma set_last_alternative_subset: "set (last_alternative s) \<subseteq> set s"
proof
  fix x
  assume "x \<in> set (last_alternative s)"
  then have "x \<in> set (takeWhile (\<lambda>c. c \<noteq> CHR '','') (rev s))"
    by (simp add: last_alternative_def)
  then have "x \<in> set (rev s)" by (rule set_takeWhileD [THEN conjunct1])
  then show "x \<in> set s" by simp
qed

lemma python_updates_step_inv:
  assumes "distinct (map fst U)" and "\<forall>e\<in>set U. entry_ok e" and "plain_finding f"
  shows "distinct (map fst (python_updates_step U f)) \<and> (\<forall>e\<in>set (python_updates_step U f). entry_ok e)"
proof (cases "truthy (PkgName f) \<and> truthy (FixedVersion f)")
  case False
  then have "python_updates_step U f = U" by (auto simp: python_updates_step_def)
  then show ?thesis using assms by simp
next
  case True
  then obtain p v where pv: "PkgName f = Some p" "FixedVersion f = Some v" "p \<noteq> []" "v \<noteq> []"
    by (auto simp: truthy_def split: option.splits)
  let ?v = "if CHR '','' \<in> set v then strip (last_alternative v) else v"
  have step: "python_updates_step U f = AList.update p ?v U"
    using pv by (simp add: python_updates_step_def truthy_def Let_def)
  have sub: "set ?v \<subseteq> set v"
    using set_strip_subset [of "last_alternative v"] set_last_alternative_subset [of v] by auto
  have "\<not> list_ex is_op_char p" and "CHR ''#'' \<notin> set v" and "\<not> list_ex is_linebreak v"
    using assms(3) pv by (simp_all add: plain_finding_def)
  then have ok: "entry_ok (p, ?v)"
    using sub pv(3) unfolding entry_ok_def list_ex_iff by auto
  have "\<forall>e\<in>set (AList.update p ?v U). entry_ok e"
    using set_update_subset [of p ?v U] assms(2) ok by blast
  then show ?thesis
    unfolding step using assms(1) by (simp add: distinct_update)
qed

lemma python_updates_fold_inv:
  assumes "distinct (map fst U)" and "\<forall>e\<in>set U. entry_ok e" and "\<forall>f\<in>set vulns. plain_finding f"
  shows "distinct (map fst (foldl python_updates_step U vulns))
         \<and> (\<forall>e\<in>set (foldl python_updates_step U vulns). entry_ok e)"
  using assms
proof (induction vulns arbitrary: U)
  case Nil
  then show ?case by simp
next
  case (Cons f fs)
  have "distinct (map fst (python_updates_step U f)) \<and> (\<forall>e\<in>set (python_updates_step U f). entry_ok e)"
    by (rule python_updates_step_inv) (use Cons.prems in simp_all)
  then show ?case using Cons.IH [of "python_updates_step U f"] Cons.prems(3) by simp
qed

lemma python_updates_inv:
  assumes "list_all plain_finding vulns"
  shows "distinct (map fst (python_updates vulns)) \<and> (\<forall>e\<in>set (python_updates vulns). entry_ok e)"
  using python_updates_fold_inv [of "[]" vulns] assms
  by (simp add: python_updates_def list_all_iff)


text \<open>The clean line\<close>

lemma strip_hd:
  assumes "strip s \<noteq> []"
  shows "\<not> isspace (hd (strip s))"
proof (cases "dropWhile isspace s")
  case Nil
  then have "strip s = []" by (simp only: strip_def) simp
  then show ?thesis using assms by simp
next
  case (Cons a d)
  have a: "\<not> isspace a" using hd_dropWhile [of isspace s] Cons by simp
  have "dropWhile isspace (rev d @ a # []) = dropWhile isspace (rev d) @ a # []"
    using a by (rule dropWhile_append_stop)
  then have "strip s = a # rev (dropWhile isspace (rev d))"
    by (simp add: strip_def Cons)
  then show ?thesis using a by simp
qed

lemma clean_of_facts:
  "set (clean_of l) \<subseteq> set l" "CHR ''#'' \<notin> set (clean_of l)"
  "clean_of l \<noteq> [] \<Longrightarrow> \<not> isspace (hd (clean_of l))"
proof -
  have bh: "set (before_hash l) \<subseteq> set l" "CHR ''#'' \<notin> set (before_hash l)"
    by (auto simp: before_hash_def dest: set_takeWhileD)
  show "set (clean_of l) \<subseteq> set l"
    using set_strip_subset [of "before_hash l"] bh(1) by (auto simp: clean_of_def)
  show "CHR ''#'' \<notin> set (clean_of l)"
    using set_strip_subset [of "before_hash l"] bh(2) by (auto simp: clean_of_def)
  show "clean_of l \<noteq> [] \<Longrightarrow> \<not> isspace (hd (clean_of l))"
    unfolding clean_of_def by (rule strip_hd)
qed

lemma matched_name_facts:
  assumes "req_pattern_match p (clean_of l)" and "p \<noteq> []"
  shows "set p \<subseteq> set l" "CHR ''#'' \<notin> set p" "\<not> isspace (hd p)"
proof -
  from assms(1) obtain r where c: "clean_of l = p @ r"
    by (auto simp: req_pattern_match_def strip_prefix_Some_iff split: option.splits)
  show "set p \<subseteq> set l" using clean_of_facts(1) [of l] c by auto
  show "CHR ''#'' \<notin> set p" using clean_of_facts(2) [of l] c by auto
  have "clean_of l \<noteq> []" using c assms(2) by simp
  then have "\<not> isspace (hd (clean_of l))" by (rule clean_of_facts(3))
  then show "\<not> isspace (hd p)" using c assms(2) by simp
qed

text \<open>The rewritten line is matched by the same package again\<close>

lemma comment_of_cases: "comment_of l = [] \<or> comment_of l = '' #'' @ after_hash l"
  by (simp add: comment_of_def)

lemma clean_of_rewritten:
  assumes p: "p \<noteq> []" "CHR ''#'' \<notin> set p" "\<not> isspace (hd p)" and v: "CHR ''#'' \<notin> set v"
  shows "\<exists>y. clean_of (p @ ''>='' @ v @ comment_of l) = p @ ''>='' @ y \<and> set y \<subseteq> insert CHR '' '' (set v)"
proof -
  obtain a s where as: "p = a # s" using p(1) by (cases p) auto
  have a: "\<not> isspace a" using p(3) as by simp
  define x where "x = takeWhile (\<lambda>c. c \<noteq> CHR ''#'') (comment_of l)"
  have x: "x = [] \<or> x = '' ''"
    using comment_of_cases [of l] by (auto simp: x_def)
  have "before_hash (p @ ''>='' @ v @ comment_of l)
          = p @ takeWhile (\<lambda>c. c \<noteq> CHR ''#'') (''>='' @ v @ comment_of l)"
    unfolding before_hash_def using p(2) by (rule takeWhile_past)
  also have "takeWhile (\<lambda>c. c \<noteq> CHR ''#'') (''>='' @ v @ comment_of l)
          = ''>='' @ takeWhile (\<lambda>c. c \<noteq> CHR ''#'') (v @ comment_of l)"
    by simp
  also have "takeWhile (\<lambda>c. c \<noteq> CHR ''#'') (v @ comment_of l) = v @ x"
    unfolding x_def using v by (rule takeWhile_past)
  finally have bh: "before_hash (p @ ''>='' @ v @ comment_of l) = a # (s @ ''>'') @ CHR ''='' # (v @ x)"
    by (simp add: as)
  have eq: "\<not> isspace CHR ''=''" by (simp add: isspace_def)
  have "strip (a # (s @ ''>'') @ CHR ''='' # (v @ x))
          = a # (s @ ''>'') @ CHR ''='' # rev (dropWhile isspace (rev (v @ x)))"
    using a eq by (rule strip_keeps_core)
  moreover have "clean_of (p @ ''>='' @ v @ comment_of l)
          = strip (a # (s @ ''>'') @ CHR ''='' # (v @ x))"
    by (simp only: clean_of_def bh)
  moreover have "a # (s @ ''>'') @ CHR ''='' # rev (dropWhile isspace (rev (v @ x)))
          = p @ ''>='' @ rev (dropWhile isspace (rev (v @ x)))"
    by (simp add: as)
  ultimately have cl: "clean_of (p @ ''>='' @ v @ comment_of l)
          = p @ ''>='' @ rev (dropWhile isspace (rev (v @ x)))"
    by (simp only:)
  have "set (rev (dropWhile isspace (rev (v @ x)))) \<subseteq> set (v @ x)"
    using set_dropWhileD [of _ isspace "rev (v @ x)"] by auto
  also have "\<dots> \<subseteq> insert CHR '' '' (set v)" using x by auto
  finally show ?thesis using cl by blast
qed

lemma same_name_matches:
  assumes "CHR 0x0A \<notin> set y"
  shows "req_pattern_match p (p @ ''>='' @ y)"
  using assms by (simp add: req_pattern_match_def strip_prefix_self is_op_char_def dot_star_end_def)

lemma other_name_fails:
  assumes "q \<noteq> p" and "\<not> list_ex is_op_char q" and "\<not> list_ex is_op_char p"
  shows "\<not> req_pattern_match q (p @ ''>='' @ y)"
proof
  assume "req_pattern_match q (p @ ''>='' @ y)"
  then obtain r where r: "p @ ''>='' @ y = q @ r"
    and m: "r = [] \<or> r = [CHR 0x0A] \<or> (r \<noteq> [] \<and> is_op_char (hd r))"
    by (auto simp: req_pattern_match_def strip_prefix_Some_iff split: option.splits)
  have gt: "is_op_char CHR ''>''" by (simp add: is_op_char_def)
  from r consider us where "p = q @ us" "r = us @ ''>='' @ y"
    | us where "q = p @ us" "''>='' @ y = us @ r"
    by (auto simp: append_eq_append_conv2)
  then show False
  proof cases
    case 1
    have "us \<noteq> []" using 1(1) assms(1) by auto
    then have hd: "hd r = hd us" and inp: "hd us \<in> set p"
      using 1 by auto
    have len: "length r \<ge> 2" using 1(2) by simp
    have "\<not> is_op_char (hd r)" using assms(3) hd inp by (auto simp: list_ex_iff)
    moreover have "r \<noteq> []" and "r \<noteq> [CHR 0x0A]" using len by auto
    ultimately show False using m by blast
  next
    case 2
    have "us \<noteq> []" using 2(1) assms(1) by auto
    then have "hd us = CHR ''>''" using 2(2) by (cases us) auto
    then have "CHR ''>'' \<in> set q" using 2(1) \<open>us \<noteq> []\<close> by (cases us) auto
    then show False using assms(2) gt by (auto simp: list_ex_iff)
  qed
qed

lemma find_by_key:
  assumes "distinct (map fst U)" and "(p, v) \<in> set U" and "P p"
    and "\<forall>(q, w)\<in>set U. q \<noteq> p \<longrightarrow> \<not> P q"
  shows "find (\<lambda>(pkg, fixed_ver). P pkg) U = Some (p, v)"
  using assms
proof (induction U)
  case Nil
  then show ?case by simp
next
  case (Cons e U)
  obtain q w where e: "e = (q, w)" by (cases e) auto
  show ?case
  proof (cases "q = p")
    case True
    then have "w = v" using Cons.prems(1,2) e by (auto simp: image_iff)
    then show ?thesis using True e Cons.prems(3) by simp
  next
    case False
    then have "\<not> P q" using Cons.prems(4) e by auto
    moreover have "(p, v) \<in> set U" using Cons.prems(2) e False by auto
    ultimately show ?thesis using Cons.IH Cons.prems e by simp
  qed
qed

lemma rewritten_fixed:
  assumes d: "distinct (map fst U)" and ok: "\<forall>e\<in>set U. entry_ok e" and t: "touched U l"
  shows "touched U (rewritten U l) \<and> rewritten U (rewritten U l) = rewritten U l
         \<and> line_pkgs U (rewritten U l) = line_pkgs U l"
proof -
  from t obtain p v where fm: "first_match U (clean_of l) = Some (p, v)"
    by (auto simp: touched_def)
  then have inU: "(p, v) \<in> set U" and m: "req_pattern_match p (clean_of l)"
    by (simp_all add: first_match_in)
  have e: "p \<noteq> []" "\<not> list_ex is_op_char p" "CHR ''#'' \<notin> set v" "\<not> list_ex is_linebreak v"
    using ok inU by (auto simp: entry_ok_def)
  note pf = matched_name_facts [OF m e(1)]
  let ?l' = "p @ ''>='' @ v @ comment_of l"
  have rw: "rewritten U l = ?l'" using t fm by (simp add: rewritten_def)
  obtain y where cl: "clean_of ?l' = p @ ''>='' @ y" and y: "set y \<subseteq> insert CHR '' '' (set v)"
    using clean_of_rewritten [OF e(1) pf(2,3) e(3), of l] by blast
  have "CHR 0x0A \<notin> set v" using e(4) by (auto simp: list_ex_iff is_linebreak_def)
  then have lf: "CHR 0x0A \<notin> set y" using y by auto
  have others: "\<forall>(q, w)\<in>set U. q \<noteq> p \<longrightarrow> \<not> req_pattern_match q (p @ ''>='' @ y)"
  proof clarify
    fix q w
    assume "(q, w) \<in> set U" and "q \<noteq> p" and mm: "req_pattern_match q (p @ ''>='' @ y)"
    then have "\<not> list_ex is_op_char q" using ok by (auto simp: entry_ok_def)
    from other_name_fails [OF \<open>q \<noteq> p\<close> this e(2)] mm show False by blast
  qed
  have fm': "first_match U (clean_of ?l') = Some (p, v)"
    unfolding first_match_def cl
    by (rule find_by_key [OF d inU same_name_matches [OF lf] others])
  have ne: "clean_of ?l' \<noteq> []" using cl e(1) by simp
  have t': "touched U ?l'" using fm' ne by (simp add: touched_def)
  have hash: "CHR ''#'' \<in> set ?l' \<longleftrightarrow> CHR ''#'' \<in> set l"
    using pf(2) e(3) by (auto simp: comment_of_def)
  have "after_hash ?l' = after_hash l" if "CHR ''#'' \<in> set l"
  proof -
    have c: "comment_of l = '' #'' @ after_hash l" using that by (simp add: comment_of_def)
    have "dropWhile (\<lambda>c. c \<noteq> CHR ''#'') ?l' = dropWhile (\<lambda>c. c \<noteq> CHR ''#'') (''>='' @ v @ comment_of l)"
      using pf(2) by (rule dropWhile_past)
    also have "\<dots> = dropWhile (\<lambda>c. c \<noteq> CHR ''#'') (v @ comment_of l)" by simp
    also have "\<dots> = dropWhile (\<lambda>c. c \<noteq> CHR ''#'') (comment_of l)"
      using e(3) by (rule dropWhile_past)
    also have "\<dots> = CHR ''#'' # after_hash l" by (simp add: c)
    finally show ?thesis by (simp add: after_hash_def)
  qed
  then have com: "comment_of ?l' = comment_of l"
    using hash by (simp add: comment_of_def)
  have "rewritten U ?l' = ?l'"
    using t' fm' com by (simp add: rewritten_def)
  moreover have "line_pkgs U ?l' = line_pkgs U l"
    using t t' fm fm' by (simp add: line_pkgs_def)
  ultimately show ?thesis using t' rw by simp
qed

lemma rewritten_idem:
  assumes "distinct (map fst U)" and "\<forall>e\<in>set U. entry_ok e"
  shows "rewritten U (rewritten U l) = rewritten U l"
proof (cases "touched U l")
  case True
  then show ?thesis using rewritten_fixed [OF assms] by blast
next
  case False
  then show ?thesis by (simp add: rewritten_def)
qed

lemma rewritten_free:
  assumes ok: "\<forall>e\<in>set U. entry_ok e" and l: "\<forall>c\<in>set l. \<not> is_linebreak c"
  shows "\<forall>c\<in>set (rewritten U l). \<not> is_linebreak c"
proof (cases "touched U l")
  case False
  then show ?thesis using l by (simp add: rewritten_def)
next
  case True
  then obtain p v where fm: "first_match U (clean_of l) = Some (p, v)"
    by (auto simp: touched_def)
  then have inU: "(p, v) \<in> set U" and m: "req_pattern_match p (clean_of l)"
    by (simp_all add: first_match_in)
  have e: "p \<noteq> []" "\<not> list_ex is_linebreak v"
    using ok inU by (auto simp: entry_ok_def)
  have p: "set p \<subseteq> set l" by (rule matched_name_facts(1) [OF m e(1)])
  have com: "set (comment_of l) \<subseteq> insert CHR '' '' (insert CHR ''#'' (set l))"
    using after_hash_subset [of l] by (auto simp: comment_of_def)
  have lit: "\<not> is_linebreak CHR '' ''" "\<not> is_linebreak CHR ''#''" "\<not> is_linebreak CHR ''>''"
    "\<not> is_linebreak CHR ''=''"
    by (simp_all add: is_linebreak_def)
  have rw: "rewritten U l = p @ ''>='' @ v @ comment_of l"
    using True fm by (simp add: rewritten_def)
  show ?thesis
    unfolding rw using p com lit l e(2) by (auto simp: list_ex_iff)
qed


lemma line_pkgs_idem:
  assumes "distinct (map fst U)" and "\<forall>e\<in>set U. entry_ok e"
  shows "line_pkgs U (rewritten U l) = line_pkgs U l"
proof (cases "touched U l")
  case True
  then show ?thesis using rewritten_fixed [OF assms] by blast
next
  case False
  then show ?thesis by (simp add: rewritten_def)
qed

text \<open>Reading back what was written\<close>

lemma splitlines_from_line:
  assumes "\<forall>c\<in>set l. \<not> is_linebreak c"
  shows "splitlines_from False cur (l @ CHR 0x0A # rest) = (rev cur @ l) # splitlines_from False [] rest"
  using assms
proof (induction l arbitrary: cur)
  case Nil
  show ?case by (simp add: is_linebreak_def)
next
  case (Cons c l)
  then show ?case by simp
qed

lemma splitlines_join:
  assumes "ls \<noteq> []" and "\<forall>l\<in>set ls. \<forall>c\<in>set l. \<not> is_linebreak c"
  shows "splitlines (join_with [CHR 0x0A] ls @ [CHR 0x0A]) = ls"
  using assms
proof (induction "[CHR 0x0A]" ls rule: join_with.induct)
  case 1
  then show ?case by simp
next
  case (2 l)
  then show ?case
    using splitlines_from_line [of l "[]" "[]"] by (simp add: splitlines_def)
next
  case (3 l v va)
  have "splitlines (join_with [CHR 0x0A] (v # va) @ [CHR 0x0A]) = v # va"
    using 3 by simp
  then show ?case
    using splitlines_from_line [of l "[]" "join_with [CHR 0x0A] (v # va) @ [CHR 0x0A]"] 3(3)
    by (simp add: splitlines_def)
qed

text \<open>
  C7, as amended. When no package name of the findings holds one of the operator
  characters \<open><>=!~\<close> and no fixed version holds a \<open>#\<close> or a line boundary, running the
  pinned-list updater again, with the same findings, on the working tree the first run
  left gives the result of the first run: the same returned list and the same working
  tree, so the same file content.
\<close>

theorem pinned_list_idempotent:
  assumes "list_all plain_finding vulns"
  shows "PythonUpdater_update (snd (PythonUpdater_update repo vulns)) vulns
           = PythonUpdater_update repo vulns"
proof (cases "snd (PythonUpdater_update repo vulns) = repo")
  case True
  then show ?thesis by simp
next
  case False
  let ?U = "python_updates vulns"
  have inv: "distinct (map fst ?U)" "\<forall>e\<in>set ?U. entry_ok e"
    using python_updates_inv [OF assms] by simp_all
  from False obtain req_file where req: "repo ''requirements.txt'' = Some req_file"
    by (cases "repo ''requirements.txt''") (auto simp: PythonUpdater_update_def)
  from False req obtain content where rd: "read_text_utf8_utf16 req_file = Inr content"
    by (cases "read_text_utf8_utf16 req_file") (auto simp: PythonUpdater_update_def Let_def)
  let ?ls = "splitlines content"
  let ?out = "map (rewritten ?U) ?ls"
  let ?c1 = "join_with [CHR 0x0A] ?out @ [CHR 0x0A]"
  let ?repo1 = "repo(''requirements.txt'' \<mapsto> Utf8 ?c1)"
  note first = PythonUpdater_update_eq [of repo req_file content vulns, OF req rd]
  have t: "list_ex (touched ?U) ?ls"
    using False first by (auto split: if_splits)
  then have run1: "PythonUpdater_update repo vulns
                     = (Inr (concat (map (line_pkgs ?U) ?ls)), ?repo1)"
    using first by simp
  have ne: "?out \<noteq> []" using t by auto
  have free: "\<forall>l\<in>set ?out. \<forall>c\<in>set l. \<not> is_linebreak c"
  proof
    fix l' assume "l' \<in> set ?out"
    then obtain l where l: "l \<in> set ?ls" "l' = rewritten ?U l" by auto
    have "\<forall>c\<in>set l. \<not> is_linebreak c" using splitlines_free l(1) by blast
    then show "\<forall>c\<in>set l'. \<not> is_linebreak c"
      unfolding l(2) by (rule rewritten_free [OF inv(2)])
  qed
  have reread: "splitlines ?c1 = ?out" by (rule splitlines_join [OF ne free])
  have t2: "list_ex (touched ?U) ?out"
  proof -
    from t obtain l where "l \<in> set ?ls" "touched ?U l" by (auto simp: list_ex_iff)
    then show ?thesis using rewritten_fixed [OF inv, of l] by (auto simp: list_ex_iff)
  qed
  have out2: "map (rewritten ?U) ?out = ?out"
    by (simp add: rewritten_idem [OF inv])
  have pk2: "map (line_pkgs ?U) ?out = map (line_pkgs ?U) ?ls"
    by (simp add: line_pkgs_idem [OF inv])
  have "PythonUpdater_update ?repo1 vulns
          = (if list_ex (touched ?U) (splitlines ?c1)
             then (Inr (concat (map (line_pkgs ?U) (splitlines ?c1))),
                   ?repo1(''requirements.txt'' \<mapsto>
                     Utf8 (join_with [CHR 0x0A] (map (rewritten ?U) (splitlines ?c1)) @ [CHR 0x0A])))
             else (Inr [], ?repo1))"
    using PythonUpdater_update_eq [of ?repo1 "Utf8 ?c1" "universal_newlines ?c1" vulns]
    by (simp add: read_text_utf8_utf16_def read_text_def splitlines_universal)
  then have "PythonUpdater_update ?repo1 vulns
          = (Inr (concat (map (line_pkgs ?U) ?ls)), ?repo1(''requirements.txt'' \<mapsto> Utf8 ?c1))"
    using t2 by (simp only: reread out2 pk2 if_True)
  then show ?thesis by (simp add: run1)
qed

theorem pinned_list_idempotent_witness:
  "PythonUpdater_update sample_repo [fixing ''requests'' ''2.31.0'']
     = (Inr [''requests''], [''requirements.txt'' \<mapsto> Utf8 (''requests>=2.31.0'' @ [CHR 0x0A])])
   \<and> PythonUpdater_update [''requirements.txt'' \<mapsto> Utf8 (''requests>=2.31.0'' @ [CHR 0x0A])]
         [fixing ''requests'' ''2.31.0'']
     = (Inr [''requests''], [''requirements.txt'' \<mapsto> Utf8 (''requests>=2.31.0'' @ [CHR 0x0A])])"
proof -
  have first: "PythonUpdater_update sample_repo [fixing ''requests'' ''2.31.0'']
     = (Inr [''requests''], [''requirements.txt'' \<mapsto> Utf8 (''requests>=2.31.0'' @ [CHR 0x0A])])"
    by (simp add: PythonUpdater_update_def sample_repo_def updates_defs python_defs string_defs file_defs)
  have "list_all plain_finding [fixing ''requests'' ''2.31.0'']"
    by (simp add: plain_finding_def fixing_def is_op_char_def is_linebreak_def)
  from pinned_list_idempotent [OF this, of sample_repo] show ?thesis
    by (simp add: first)
qed

text \<open>
  The claim as stated fails for a fixed version that holds a \<open>#\<close>: the second run
  reads the end of the version as a comment and appends it once more.
\<close>

theorem version_with_hash_not_idempotent:
  "snd (PythonUpdater_update one_pin_repo [fixing ''a'' ''1#x'']) ''requirements.txt''
     = Some (Utf8 (''a>=1#x'' @ [CHR 0x0A]))
   \<and> snd (PythonUpdater_update (snd (PythonUpdater_update one_pin_repo [fixing ''a'' ''1#x'']))
            [fixing ''a'' ''1#x'']) ''requirements.txt''
     = Some (Utf8 (''a>=1#x #x'' @ [CHR 0x0A]))"
proof -
  have first: "PythonUpdater_update one_pin_repo [fixing ''a'' ''1#x'']
     = (Inr [''a''], [''requirements.txt'' \<mapsto> Utf8 (''a>=1#x'' @ [CHR 0x0A])])"
    by (simp add: PythonUpdater_update_def one_pin_repo_def updates_defs python_defs string_defs file_defs)
  have second: "PythonUpdater_update [''requirements.txt'' \<mapsto> Utf8 (''a>=1#x'' @ [CHR 0x0A])]
                  [fixing ''a'' ''1#x'']
     = (Inr [''a''], [''requirements.txt'' \<mapsto> Utf8 (''a>=1#x #x'' @ [CHR 0x0A])])"
    by (simp add: PythonUpdater_update_def updates_defs python_defs string_defs file_defs)
  show ?thesis using first second by simp
qed

end
